theory Spec2Isabelle
  imports
    Main
    "HOL-Library.Sublist"
    "HOL-Library.Char_ord"
    "HOL-Library.List_Lexorder"
    "HOL-Library.AList"
begin

section \<open>Strings and paths\<close>

text \<open>
  The program is \<^verbatim>\<open>file_organizer_enhanced.py\<close>. Python strings are modelled as
  \<open>string\<close> (lists of characters with code points below 256); the order on strings is
  the lexicographic order on code points, which is what Python's \<^verbatim>\<open>sorted\<close> uses.
  Paths are strings, as in the source, because the source applies string operations
  (\<^verbatim>\<open>startswith\<close>, \<^verbatim>\<open>replace\<close>) to whole paths.
\<close>

type_synonym path = string

definition LOGS_DIR :: string where
  "LOGS_DIR = ''.aioffice_logs''"

text \<open>\<^verbatim>\<open>posixpath.join(a, b)\<close> for two arguments.\<close>

definition join :: "path \<Rightarrow> string \<Rightarrow> path" where
  "join a b =
     (if prefix ''/'' b then b
      else if a = [] \<or> last a = CHR ''/'' then a @ b
      else a @ ''/'' @ b)"

text \<open>
  \<^verbatim>\<open>posixpath.split(p)\<close>: the tail is everything after the last slash; the head is
  everything up to it, with trailing slashes removed unless the head is all slashes.
\<close>

definition path_split :: "path \<Rightarrow> path \<times> string" where
  "path_split p =
     (let head = rev (dropWhile (\<lambda>c. c \<noteq> CHR ''/'') (rev p));
          tail = rev (takeWhile (\<lambda>c. c \<noteq> CHR ''/'') (rev p))
      in (if head \<noteq> [] \<and> \<not> list_all (\<lambda>c. c = CHR ''/'') head
          then rev (dropWhile (\<lambda>c. c = CHR ''/'') (rev head))
          else head,
          tail))"

definition dirname :: "path \<Rightarrow> path" where
  "dirname p = fst (path_split p)"

definition basename :: "path \<Rightarrow> string" where
  "basename p = snd (path_split p)"

text \<open>
  \<^verbatim>\<open>os.path.splitext\<close>: the extension starts at the last dot, provided that dot comes
  after the last slash and some character of the file name before it is not a dot
  (so \<^verbatim>\<open>.bashrc\<close> has no extension).
\<close>

definition splitext :: "string \<Rightarrow> string \<times> string" where
  "splitext p =
     (let after = rev (takeWhile (\<lambda>c. c \<noteq> CHR ''.'') (rev p));
          root = rev (tl (dropWhile (\<lambda>c. c \<noteq> CHR ''.'') (rev p)))
      in if CHR ''.'' \<in> set p \<and> CHR ''/'' \<notin> set after
            \<and> \<not> list_all (\<lambda>c. c = CHR ''.'') (basename root)
         then (root, CHR ''.'' # after)
         else (p, []))"

text \<open>\<^verbatim>\<open>str.lower\<close> on code points below 256: A-Z and the Latin-1 capitals.\<close>

definition lower_char :: "char \<Rightarrow> char" where
  "lower_char c =
     (let n = (of_char c :: nat)
      in if (65 \<le> n \<and> n \<le> 90) \<or> (192 \<le> n \<and> n \<le> 222 \<and> n \<noteq> 215)
         then char_of (n + 32) else c)"

definition lower :: "string \<Rightarrow> string" where
  "lower s = map lower_char s"

text \<open>\<^verbatim>\<open>s.strip(c)\<close> for a single character \<open>c\<close>.\<close>

definition strip :: "char \<Rightarrow> string \<Rightarrow> string" where
  "strip c s = rev (dropWhile (\<lambda>x. x = c) (rev (dropWhile (\<lambda>x. x = c) s)))"

definition rstrip :: "char \<Rightarrow> string \<Rightarrow> string" where
  "rstrip c s = rev (dropWhile (\<lambda>x. x = c) (rev s))"

text \<open>
  \<^verbatim>\<open>s.replace(old, new)\<close>: every non-overlapping occurrence of \<open>old\<close>, scanning from
  the left. For the empty pattern Python inserts \<open>new\<close> before every character and at
  the end.
\<close>

function py_replace :: "string \<Rightarrow> string \<Rightarrow> string \<Rightarrow> string" where
  "py_replace old new [] = (if old = [] then new else [])"
| "py_replace old new (c # cs) =
     (if old = [] then new @ c # py_replace old new cs
      else if prefix old (c # cs) then new @ py_replace old new (drop (length old) (c # cs))
      else c # py_replace old new cs)"
  by pat_completeness auto
termination
  by (relation "measure (\<lambda>(old, new, s). length s)") auto

section \<open>The clock\<close>

text \<open>
  \<^verbatim>\<open>datetime.utcnow()\<close> is an input of the model. \<^verbatim>\<open>strftime("%Y%m%dT%H%M%SZ")\<close>
  prints the year on four digits and the other fields on two; the microsecond is not
  printed.
\<close>

record datetime =
  year :: nat
  month :: nat
  day :: nat
  hour :: nat
  minute :: nat
  second :: nat
  microsecond :: nat

fun digits :: "nat \<Rightarrow> nat \<Rightarrow> string" where
  "digits 0 n = []"
| "digits (Suc k) n = digits k (n div 10) @ [char_of (48 + n mod 10)]"

definition strftime :: "datetime \<Rightarrow> string" where
  "strftime t =
     digits 4 (year t) @ digits 2 (month t) @ digits 2 (day t) @ ''T''
     @ digits 2 (hour t) @ digits 2 (minute t) @ digits 2 (second t) @ ''Z''"

section \<open>The file system\<close>

text \<open>
  An Action is the dictionary \<^verbatim>\<open>{"src": ..., "dst": ...}\<close> of the source.
\<close>

record action =
  src :: path
  dst :: path

text \<open>
  A regular file holds either the JSON document that \<^verbatim>\<open>json.dump\<close> writes for a list
  of Actions (\<^verbatim>\<open>json.load\<close> gives the list back), or bytes that are not a JSON document
  (\<^verbatim>\<open>json.load\<close> raises). The file system is an association list from absolute paths to
  nodes; \<^verbatim>\<open>os.listdir\<close> enumerates in the order of the list. There are no symbolic
  links and one device.
\<close>

datatype content = Json_actions "action list" | Bytes string

datatype node = File content | Dir

type_synonym filesystem = "(path \<times> node) list"

datatype error =
    FileNotFoundError
  | FileExistsError
  | NotADirectoryError
  | IsADirectoryError
  | OSError
  | ShutilError
  | JSONDecodeError

definition exists :: "filesystem \<Rightarrow> path \<Rightarrow> bool" where
  "exists fs p = (map_of fs p \<noteq> None)"

definition isdir :: "filesystem \<Rightarrow> path \<Rightarrow> bool" where
  "isdir fs p = (map_of fs p = Some Dir)"

definition isfile :: "filesystem \<Rightarrow> path \<Rightarrow> bool" where
  "isfile fs p = (case map_of fs p of Some (File c) \<Rightarrow> True | _ \<Rightarrow> False)"

text \<open>
  The names directly inside \<open>d\<close>: the keys \<open>join d name\<close> with a non-empty name that has
  no slash.
\<close>

definition children :: "filesystem \<Rightarrow> path \<Rightarrow> string list" where
  "children fs d =
     (let pre = join d [] in
      map (\<lambda>(p, n). drop (length pre) p)
        (filter (\<lambda>(p, n). prefix pre p \<and> drop (length pre) p \<noteq> []
                           \<and> CHR ''/'' \<notin> set (drop (length pre) p)) fs))"

definition listdir :: "filesystem \<Rightarrow> path \<Rightarrow> error + string list" where
  "listdir fs d =
     (case map_of fs d of
        None \<Rightarrow> Inl FileNotFoundError
      | Some (File c) \<Rightarrow> Inl NotADirectoryError
      | Some Dir \<Rightarrow> Inr (children fs d))"

text \<open>\<^verbatim>\<open>os.mkdir\<close>.\<close>

definition mkdir :: "filesystem \<Rightarrow> path \<Rightarrow> error + filesystem" where
  "mkdir fs p =
     (if exists fs p then Inl FileExistsError
      else if \<not> exists fs (dirname p) then Inl FileNotFoundError
      else if \<not> isdir fs (dirname p) then Inl NotADirectoryError
      else Inr (AList.update p Dir fs))"

text \<open>
  \<^verbatim>\<open>os.makedirs(name, exist_ok=True)\<close>, following CPython: create the missing head
  first (a \<^verbatim>\<open>FileExistsError\<close> of that recursive call is swallowed), then
  \<^verbatim>\<open>mkdir(name)\<close>, whose error is swallowed when \<open>name\<close> is a directory.
\<close>

function makedirs :: "filesystem \<Rightarrow> path \<Rightarrow> error + filesystem" where
  "makedirs fs name =
     (let (head0, tail0) = path_split name;
          (head, tail) = (if tail0 = [] then path_split head0 else (head0, tail0))
      in case (if head \<noteq> [] \<and> tail \<noteq> [] \<and> \<not> exists fs head
               then (case makedirs fs head of
                       Inl e \<Rightarrow> if e = FileExistsError then Inr fs else Inl e
                     | Inr fs1 \<Rightarrow> Inr fs1)
               else Inr fs) of
           Inl e \<Rightarrow> Inl e
         | Inr fs1 \<Rightarrow>
             (case mkdir fs1 name of
                Inl e \<Rightarrow> if isdir fs1 name then Inr fs1 else Inl e
              | Inr fs2 \<Rightarrow> Inr fs2))"
  by pat_completeness auto
termination
proof (relation "measure (\<lambda>(fs, name). length name)")
  show "wf (measure (\<lambda>(fs, name). length name))"
    by simp
next
  fix fs :: filesystem and name :: path and x head0 tail0 xa head tail
  assume a: "x = path_split name" "(head0, tail0) = x"
    "xa = (if tail0 = [] then path_split head0 else (head0, tail0))"
    "(head, tail) = xa" "head \<noteq> [] \<and> tail \<noteq> [] \<and> \<not> exists fs head"
  have len: "length (fst (path_split p)) + length (snd (path_split p)) \<le> length p" for p
  proof -
    have "length (dropWhile (\<lambda>c. c \<noteq> CHR ''/'') (rev p))
            + length (takeWhile (\<lambda>c. c \<noteq> CHR ''/'') (rev p)) = length p"
      by (metis add.commute length_append length_rev takeWhile_dropWhile_id)
    moreover have "length (dropWhile (\<lambda>c. c = CHR ''/'')
                     (rev (rev (dropWhile (\<lambda>c. c \<noteq> CHR ''/'') (rev p)))))
                   \<le> length (dropWhile (\<lambda>c. c \<noteq> CHR ''/'') (rev p))"
      by (metis length_dropWhile_le length_rev)
    ultimately show ?thesis
      by (auto simp: path_split_def Let_def)
  qed
  from a have t: "0 < length tail"
    by simp
  have "length head + length tail \<le> length name"
  proof (cases "tail0 = []")
    case True
    with a have "path_split head0 = (head, tail)" "fst (path_split name) = head0"
      by (simp_all add: fst_def split: prod.splits) (metis fst_conv)
    then show ?thesis
      using len [of head0] len [of name] by simp
  next
    case False
    with a have "path_split name = (head, tail)"
      by simp
    then show ?thesis
      using len [of name] by simp
  qed
  with t show "((fs, head), (fs, name)) \<in> measure (\<lambda>(fs, name). length name)"
    by (cases tail) auto
qed

declare makedirs.simps [simp del]

text \<open>
  \<^verbatim>\<open>os.rename\<close> and \<^verbatim>\<open>os.replace\<close> on POSIX: a regular file replaces an existing
  regular file silently; a directory can only replace an empty directory, and moves
  with everything below it.
\<close>

definition rekey :: "path \<Rightarrow> path \<Rightarrow> filesystem \<Rightarrow> filesystem" where
  "rekey s d fs =
     map (\<lambda>(p, n). if p = s then (d, n)
                    else if prefix (s @ ''/'') p then (d @ drop (length s) p, n)
                    else (p, n)) fs"

definition os_rename :: "filesystem \<Rightarrow> path \<Rightarrow> path \<Rightarrow> error + filesystem" where
  "os_rename fs s d =
     (case map_of fs s of
        None \<Rightarrow> Inl FileNotFoundError
      | Some (File c) \<Rightarrow>
          if \<not> exists fs (dirname d) then Inl FileNotFoundError
          else if \<not> isdir fs (dirname d) then Inl NotADirectoryError
          else if isdir fs d then Inl IsADirectoryError
          else if s = d then Inr fs
          else Inr (AList.update d (File c) (AList.delete s fs))
      | Some Dir \<Rightarrow>
          if \<not> exists fs (dirname d) then Inl FileNotFoundError
          else if \<not> isdir fs (dirname d) then Inl NotADirectoryError
          else if isfile fs d then Inl NotADirectoryError
          else if s = d then Inr fs
          else if prefix (s @ ''/'') d then Inl OSError
          else if isdir fs d \<and> children fs d \<noteq> [] then Inl OSError
          else Inr (rekey s d (AList.delete d fs)))"

definition os_replace :: "filesystem \<Rightarrow> path \<Rightarrow> path \<Rightarrow> error + filesystem" where
  "os_replace fs s d = os_rename fs s d"

text \<open>
  \<^verbatim>\<open>shutil.move(src, dst)\<close>, following CPython: when the destination is an existing
  directory the source is moved inside it, and it is an error if that name is taken.
  With one device and no links, the copy that CPython falls back to after a failed
  rename fails for the same reason as the rename, except when a directory is moved
  below a missing parent, which this program never asks for (the sources of organize
  are regular files, and undo creates the parent first).
\<close>

definition move :: "filesystem \<Rightarrow> path \<Rightarrow> path \<Rightarrow> error + filesystem" where
  "move fs s d =
     (if isdir fs d then
        (if s = d then os_rename fs s d
         else let real_dst = join d (basename (rstrip CHR ''/'' s))
              in if exists fs real_dst then Inl ShutilError
                 else os_rename fs s real_dst)
      else os_rename fs s d)"

text \<open>
  \<^verbatim>\<open>open(p, "w")\<close> followed by \<^verbatim>\<open>json.dump\<close>, and \<^verbatim>\<open>open(p, "r")\<close> followed by
  \<^verbatim>\<open>json.load\<close>.
\<close>

definition write_json :: "filesystem \<Rightarrow> path \<Rightarrow> action list \<Rightarrow> error + filesystem" where
  "write_json fs p acts =
     (if isdir fs p then Inl IsADirectoryError
      else if \<not> exists fs (dirname p) then Inl FileNotFoundError
      else if \<not> isdir fs (dirname p) then Inl NotADirectoryError
      else Inr (AList.update p (File (Json_actions acts)) fs))"

definition read_json :: "filesystem \<Rightarrow> path \<Rightarrow> error + action list" where
  "read_json fs p =
     (case map_of fs p of
        None \<Rightarrow> Inl FileNotFoundError
      | Some Dir \<Rightarrow> Inl IsADirectoryError
      | Some (File (Bytes b)) \<Rightarrow> Inl JSONDecodeError
      | Some (File (Json_actions acts)) \<Rightarrow> Inr acts)"

text \<open>
  \<^verbatim>\<open>logging.FileHandler(log_file)\<close> opens the log file for appending, which creates
  it when it is missing.
\<close>

definition open_append :: "filesystem \<Rightarrow> path \<Rightarrow> error + filesystem" where
  "open_append fs p =
     (case map_of fs p of
        Some Dir \<Rightarrow> Inl IsADirectoryError
      | Some (File c) \<Rightarrow> Inr fs
      | None \<Rightarrow>
          if \<not> exists fs (dirname p) then Inl FileNotFoundError
          else if \<not> isdir fs (dirname p) then Inl NotADirectoryError
          else Inr (AList.update p (File (Bytes [])) fs))"

section \<open>The world: files, log records, standard output\<close>

text \<open>
  A log record is the level, the format string and the arguments of a
  \<^verbatim>\<open>logging.info\<close> or \<^verbatim>\<open>logging.error\<close> call. The text of \<^verbatim>\<open>organizer.log\<close> is
  the \<open>log\<close> field; the node of that file in \<open>files\<close> only records that it exists.
\<close>

datatype level = INFO | ERROR

datatype arg = Str string | Exc error

type_synonym log_record = "level \<times> string \<times> arg list"

record world =
  files :: filesystem
  log :: "log_record list"
  stdout :: "string list"

definition logging_info :: "string \<Rightarrow> arg list \<Rightarrow> world \<Rightarrow> world" where
  "logging_info fmt args w = w\<lparr>log := log w @ [(INFO, fmt, args)]\<rparr>"

definition logging_error :: "string \<Rightarrow> arg list \<Rightarrow> world \<Rightarrow> world" where
  "logging_error fmt args w = w\<lparr>log := log w @ [(ERROR, fmt, args)]\<rparr>"

text \<open>
  A call of the program returns the world it leaves behind together with either the
  exception that escaped (\<open>Inl\<close>) or the returned value (\<open>Inr\<close>): an exception does not
  undo what was done before it.
\<close>

type_synonym 'a outcome = "(error + 'a) \<times> world"

section \<open>organize\<close>

text \<open>
  Lines 47 to 49 of \<^verbatim>\<open>scan_and_organize\<close>: the category folder of a file name is its
  extension in lower case without dots, or \<^verbatim>\<open>no_ext\<close>.
\<close>

definition category :: "string \<Rightarrow> string" where
  "category fname =
     (let ext = strip CHR ''.'' (lower (snd (splitext fname)))
      in if ext = [] then ''no_ext'' else ext)"

text \<open>
  Lines 44 to 53: the planning loop over the names that \<^verbatim>\<open>os.listdir\<close> returned. It
  creates the category folder of every file it plans, also in a dry run, and an
  exception of \<^verbatim>\<open>os.makedirs\<close> ends the call.
\<close>

fun plan_files ::
  "path \<Rightarrow> string list \<Rightarrow> action list \<Rightarrow> filesystem \<Rightarrow> (error + action list) \<times> filesystem"
where
  "plan_files folder [] actions fs = (Inr actions, fs)"
| "plan_files folder (fname # rest) actions fs =
     (let fpath = join folder fname in
      if isfile fs fpath \<and> \<not> prefix (join folder LOGS_DIR) fpath then
        (let target_dir = join folder (category fname) in
         case makedirs fs target_dir of
           Inl e \<Rightarrow> (Inl e, fs)
         | Inr fs1 \<Rightarrow>
             plan_files folder rest
               (actions @ [\<lparr>src = fpath, dst = join target_dir fname\<rparr>]) fs1)
      else plan_files folder rest actions fs)"

text \<open>Lines 55 and 56: every planned move is logged.\<close>

definition log_plan :: "action list \<Rightarrow> world \<Rightarrow> world" where
  "log_plan actions w =
     fold (\<lambda>act. logging_info ''Move: %s -> %s'' [Str (src act), Str (dst act)]) actions w"

text \<open>Lines 63 to 67: one move, with its \<^verbatim>\<open>except Exception\<close>, and the loop.\<close>

definition move_one :: "action \<Rightarrow> world \<Rightarrow> world" where
  "move_one act w =
     (case move (files w) (src act) (dst act) of
        Inl e \<Rightarrow> logging_error ''Failed to move %s: %s'' [Str (src act), Exc e] w
      | Inr fs1 \<Rightarrow> w\<lparr>files := fs1\<rparr>)"

definition move_all :: "action list \<Rightarrow> world \<Rightarrow> world" where
  "move_all actions w = fold move_one actions w"

definition history_name :: "datetime \<Rightarrow> string" where
  "history_name now = ''history_'' @ strftime now @ ''.json''"

text \<open>
  \<^verbatim>\<open>scan_and_organize(folder, dry_run, prefix)\<close>, with \<open>folder\<close> already absolute
  (line 38) and \<open>now\<close> the value of \<^verbatim>\<open>datetime.utcnow()\<close> at line 61. The result is
  \<open>None\<close> for the early return of line 41 and the list of Actions otherwise.
\<close>

definition scan_and_organize ::
  "datetime \<Rightarrow> path \<Rightarrow> bool \<Rightarrow> string \<Rightarrow> world \<Rightarrow> action list option outcome"
where
  "scan_and_organize now folder dry_run pfx w =
     (if \<not> isdir (files w) folder
      then (Inr None, logging_error ''Folder does not exist: %s'' [Str folder] w)
      else case listdir (files w) folder of
        Inl e \<Rightarrow> (Inl e, w)
      | Inr names \<Rightarrow>
          (case plan_files folder names [] (files w) of
             (Inl e, fs1) \<Rightarrow> (Inl e, w\<lparr>files := fs1\<rparr>)
           | (Inr actions, fs1) \<Rightarrow>
               (let w1 = log_plan actions (w\<lparr>files := fs1\<rparr>) in
                if dry_run
                then (Inr (Some actions), logging_info ''Dry run mode; no changes made.'' [] w1)
                else
                  (let history_file = join (join folder LOGS_DIR) (history_name now);
                       w2 = move_all actions w1
                   in case write_json (files w2) history_file actions of
                        Inl e \<Rightarrow> (Inl e, w2)
                      | Inr fs3 \<Rightarrow>
                          (Inr (Some actions),
                           logging_info ''Organization complete. History saved to %s''
                             [Str history_file] (w2\<lparr>files := fs3\<rparr>))))))"

section \<open>undo\<close>

text \<open>Lines 89 to 97: the body of the restoring loop, with its \<^verbatim>\<open>except Exception\<close>.\<close>

definition restore :: "action \<Rightarrow> world \<Rightarrow> world" where
  "restore act w =
     (if exists (files w) (dst act) then
        (let src_dir = dirname (src act) in
         case makedirs (files w) src_dir of
           Inl e \<Rightarrow> logging_error ''Failed to restore %s: %s'' [Str (dst act), Exc e] w
         | Inr fs1 \<Rightarrow>
             (case move fs1 (dst act) (src act) of
                Inl e \<Rightarrow>
                  logging_error ''Failed to restore %s: %s'' [Str (dst act), Exc e]
                    (w\<lparr>files := fs1\<rparr>)
              | Inr fs2 \<Rightarrow>
                  logging_info ''Restored: %s -> %s'' [Str (dst act), Str (src act)]
                    (w\<lparr>files := fs2\<rparr>)))
      else w)"

definition restore_all :: "action list \<Rightarrow> world \<Rightarrow> world" where
  "restore_all actions w = fold restore actions w"

text \<open>Lines 99 to 101: the consumed history file gets its undone name.\<close>

definition undone_path :: "path \<Rightarrow> path" where
  "undone_path history_file = py_replace ''history_'' ''undone_'' history_file"

definition mark_undone :: "path \<Rightarrow> world \<Rightarrow> unit outcome" where
  "mark_undone history_file w =
     (let undone_file = undone_path history_file in
      case os_replace (files w) history_file undone_file of
        Inl e \<Rightarrow> (Inl e, w)
      | Inr fs1 \<Rightarrow>
          (Inr (),
           logging_info ''Undo complete. Moved history to %s'' [Str undone_file]
             (w\<lparr>files := fs1\<rparr>)))"

text \<open>Lines 85 to 101: what undo does once the history file is chosen.\<close>

definition undo_file :: "path \<Rightarrow> world \<Rightarrow> unit outcome" where
  "undo_file history_file w =
     (case read_json (files w) history_file of
        Inl e \<Rightarrow> (Inl e, w)
      | Inr actions \<Rightarrow> mark_undone history_file (restore_all actions w))"

text \<open>\<^verbatim>\<open>undo_last(folder)\<close>, lines 73 to 84, continued by \<open>undo_file\<close>.\<close>

definition undo_last :: "path \<Rightarrow> world \<Rightarrow> unit outcome" where
  "undo_last folder w =
     (let logs_path = join folder LOGS_DIR in
      if \<not> isdir (files w) logs_path
      then (Inr (), logging_error ''No history found.'' [] w)
      else case listdir (files w) logs_path of
        Inl e \<Rightarrow> (Inl e, w)
      | Inr names \<Rightarrow>
          (let history_files = sort (filter (prefix ''history_'') names) in
           if history_files = []
           then (Inr (), logging_error ''No history files to undo.'' [] w)
           else undo_file (join logs_path (last history_files)) w))"

section \<open>history and the command line\<close>

definition list_history :: "path \<Rightarrow> world \<Rightarrow> unit outcome" where
  "list_history folder w =
     (let logs_path = join folder LOGS_DIR in
      if \<not> isdir (files w) logs_path
      then (Inr (), logging_info ''No history found.'' [] w)
      else case listdir (files w) logs_path of
        Inl e \<Rightarrow> (Inl e, w)
      | Inr names \<Rightarrow> (Inr (), w\<lparr>stdout := stdout w @ sort names\<rparr>))"

definition setup_logging :: "path \<Rightarrow> world \<Rightarrow> path outcome" where
  "setup_logging base_folder w =
     (case makedirs (files w) (join base_folder LOGS_DIR) of
        Inl e \<Rightarrow> (Inl e, w)
      | Inr fs1 \<Rightarrow>
          (let log_file = join (join base_folder LOGS_DIR) ''organizer.log'' in
           case open_append fs1 log_file of
             Inl e \<Rightarrow> (Inl e, w\<lparr>files := fs1\<rparr>)
           | Inr fs2 \<Rightarrow> (Inr log_file, w\<lparr>files := fs2\<rparr>)))"

text \<open>
  The parsed command line: \<^verbatim>\<open>organize folder [--dry-run] [--prefix STR]\<close>,
  \<^verbatim>\<open>undo folder\<close>, \<^verbatim>\<open>history folder\<close>, or no subcommand.
\<close>

datatype command =
    Organize path bool string
  | Undo path
  | History path
  | No_command

fun folder_of :: "command \<Rightarrow> path" where
  "folder_of (Organize folder dry_run pfx) = folder"
| "folder_of (Undo folder) = folder"
| "folder_of (History folder) = folder"
| "folder_of No_command = []"

definition main :: "datetime \<Rightarrow> command \<Rightarrow> world \<Rightarrow> unit outcome" where
  "main now cmd w =
     (if cmd = No_command then (Inr (), w\<lparr>stdout := stdout w @ [''usage'']\<rparr>)
      else case setup_logging (folder_of cmd) w of
        (Inl e, w1) \<Rightarrow> (Inl e, w1)
      | (Inr log_file, w1) \<Rightarrow>
          (let w2 = logging_info ''Log file: %s'' [Str log_file] w1 in
           case cmd of
             Organize folder dry_run pfx \<Rightarrow>
               (case scan_and_organize now folder dry_run pfx w2 of
                  (Inl e, w3) \<Rightarrow> (Inl e, w3)
                | (Inr r, w3) \<Rightarrow> (Inr (), w3))
           | Undo folder \<Rightarrow> undo_last folder w2
           | History folder \<Rightarrow> list_history folder w2
           | No_command \<Rightarrow> (Inr (), w2)))"

section \<open>Notions used in the statements\<close>

text \<open>
  Line 38 replaces the folder by \<^verbatim>\<open>os.path.abspath(folder)\<close>; the model takes the folder
  after that call. Such a path is the root, or it is not empty and does not end with a
  slash.
\<close>

definition normalised :: "path \<Rightarrow> bool" where
  "normalised p = (p = ''/'' \<or> (p \<noteq> [] \<and> last p \<noteq> CHR ''/''))"

text \<open>
  The test of line 46 on one name of the listing, and the Action that lines 47 to 53
  build for a name that passes it.
\<close>

definition selected :: "filesystem \<Rightarrow> path \<Rightarrow> string \<Rightarrow> bool" where
  "selected fs folder fname =
     (isfile fs (join folder fname) \<and> \<not> prefix (join folder LOGS_DIR) (join folder fname))"

definition planned :: "path \<Rightarrow> string \<Rightarrow> action" where
  "planned folder fname =
     \<lparr>src = join folder fname, dst = join (join folder (category fname)) fname\<rparr>"


section \<open>Example worlds\<close>

text \<open>A log directory after several organize passes and one undo.\<close>

definition w_undo :: world where
  "w_undo = \<lparr>files = [(''/'', Dir), (''/d'', Dir), (''/d/.aioffice_logs'', Dir),
      (''/d/.aioffice_logs/organizer.log'', File (Bytes [])),
      (''/d/.aioffice_logs/history_20240102T030405Z.json'', File (Json_actions [])),
      (''/d/.aioffice_logs/undone_20250102T030405Z.json'', File (Json_actions [])),
      (''/d/.aioffice_logs/history_20240102T030406Z.json'', File (Json_actions [])),
      (''/d/.aioffice_logs/history_20231231T235959Z.json'', File (Json_actions []))],
     log = [], stdout = []\<rparr>"

text \<open>The clock of the examples, and small folders \<^verbatim>\<open>/d\<close>.\<close>

definition t0 :: datetime where
  "t0 = \<lparr>year = 2024, month = 1, day = 2, hour = 3, minute = 4, second = 5, microsecond = 6\<rparr>"

definition w_dry :: world where
  "w_dry = \<lparr>files = [(''/'', Dir), (''/d'', Dir), (''/d/.aioffice_logs'', Dir),
      (''/d/a.txt'', File (Bytes ''A''))], log = [], stdout = []\<rparr>"

definition w_bak :: world where
  "w_bak = \<lparr>files = [(''/'', Dir), (''/d'', Dir), (''/d/.aioffice_logs'', Dir),
      (''/d/.aioffice_logs.bak'', File (Bytes ''B'')),
      (''/d/a.txt'', File (Bytes ''A''))], log = [], stdout = []\<rparr>"




text \<open>
  The folder after organize at \<open>t0\<close> on \<open>w_dry\<close>, and after a second organize within
  the same second.
\<close>

definition w_once :: world where
  "w_once = \<lparr>files = [(''/'', Dir), (''/d'', Dir), (''/d/.aioffice_logs'', Dir),
      (''/d/txt'', Dir), (''/d/txt/a.txt'', File (Bytes ''A'')),
      (''/d/.aioffice_logs/history_20240102T030405Z.json'',
         File (Json_actions [\<lparr>src = ''/d/a.txt'', dst = ''/d/txt/a.txt''\<rparr>]))],
     log = [(INFO, ''Move: %s -> %s'', [Str ''/d/a.txt'', Str ''/d/txt/a.txt'']),
            (INFO, ''Organization complete. History saved to %s'',
               [Str ''/d/.aioffice_logs/history_20240102T030405Z.json''])],
     stdout = []\<rparr>"

definition w_twice :: world where
  "w_twice = \<lparr>files = [(''/'', Dir), (''/d'', Dir), (''/d/.aioffice_logs'', Dir),
      (''/d/txt'', Dir), (''/d/txt/a.txt'', File (Bytes ''A'')),
      (''/d/.aioffice_logs/history_20240102T030405Z.json'', File (Json_actions []))],
     log = [(INFO, ''Move: %s -> %s'', [Str ''/d/a.txt'', Str ''/d/txt/a.txt'']),
            (INFO, ''Organization complete. History saved to %s'',
               [Str ''/d/.aioffice_logs/history_20240102T030405Z.json'']),
            (INFO, ''Organization complete. History saved to %s'',
               [Str ''/d/.aioffice_logs/history_20240102T030405Z.json''])],
     stdout = []\<rparr>"



text \<open>
  The folder of the example of the specification, before and after organize; a folder
  where the destination of \<^verbatim>\<open>a.txt\<close> is already a regular file, before and after
  organize; a folder where that destination is a directory, before and after organize.
\<close>

definition w_spec :: world where
  "w_spec = \<lparr>files = [(''/'', Dir), (''/d'', Dir), (''/d/.aioffice_logs'', Dir),
      (''/d/a.txt'', File (Bytes ''A'')), (''/d/b.TXT'', File (Bytes ''B'')),
      (''/d/c'', File (Bytes ''C''))], log = [], stdout = []\<rparr>"

definition w_spec_organized :: world where
  "w_spec_organized = \<lparr>files = [(''/'', Dir), (''/d'', Dir), (''/d/.aioffice_logs'', Dir),
      (''/d/txt'', Dir), (''/d/no_ext'', Dir),
      (''/d/txt/a.txt'', File (Bytes ''A'')), (''/d/txt/b.TXT'', File (Bytes ''B'')),
      (''/d/no_ext/c'', File (Bytes ''C'')),
      (''/d/.aioffice_logs/history_20240102T030405Z.json'',
         File (Json_actions [\<lparr>src = ''/d/a.txt'', dst = ''/d/txt/a.txt''\<rparr>,
                             \<lparr>src = ''/d/b.TXT'', dst = ''/d/txt/b.TXT''\<rparr>,
                             \<lparr>src = ''/d/c'', dst = ''/d/no_ext/c''\<rparr>]))],
     log = [(INFO, ''Move: %s -> %s'', [Str ''/d/a.txt'', Str ''/d/txt/a.txt'']),
            (INFO, ''Move: %s -> %s'', [Str ''/d/b.TXT'', Str ''/d/txt/b.TXT'']),
            (INFO, ''Move: %s -> %s'', [Str ''/d/c'', Str ''/d/no_ext/c'']),
            (INFO, ''Organization complete. History saved to %s'',
               [Str ''/d/.aioffice_logs/history_20240102T030405Z.json''])],
     stdout = []\<rparr>"

definition w_collide :: world where
  "w_collide = \<lparr>files = [(''/'', Dir), (''/d'', Dir), (''/d/.aioffice_logs'', Dir),
      (''/d/a.txt'', File (Bytes ''NEW'')), (''/d/txt'', Dir),
      (''/d/txt/a.txt'', File (Bytes ''OLD''))], log = [], stdout = []\<rparr>"

definition w_collide_organized :: world where
  "w_collide_organized = \<lparr>files = [(''/'', Dir), (''/d'', Dir), (''/d/.aioffice_logs'', Dir),
      (''/d/txt'', Dir), (''/d/txt/a.txt'', File (Bytes ''NEW'')),
      (''/d/.aioffice_logs/history_20240102T030405Z.json'',
         File (Json_actions [\<lparr>src = ''/d/a.txt'', dst = ''/d/txt/a.txt''\<rparr>]))],
     log = [(INFO, ''Move: %s -> %s'', [Str ''/d/a.txt'', Str ''/d/txt/a.txt'']),
            (INFO, ''Organization complete. History saved to %s'',
               [Str ''/d/.aioffice_logs/history_20240102T030405Z.json''])],
     stdout = []\<rparr>"

definition w_into_dir :: world where
  "w_into_dir = \<lparr>files = [(''/'', Dir), (''/d'', Dir), (''/d/.aioffice_logs'', Dir),
      (''/d/a.txt'', File (Bytes ''A'')), (''/d/txt'', Dir),
      (''/d/txt/a.txt'', Dir)], log = [], stdout = []\<rparr>"

definition w_into_dir_organized :: world where
  "w_into_dir_organized = \<lparr>files = [(''/'', Dir), (''/d'', Dir), (''/d/.aioffice_logs'', Dir),
      (''/d/txt'', Dir), (''/d/txt/a.txt'', Dir),
      (''/d/txt/a.txt/a.txt'', File (Bytes ''A'')),
      (''/d/.aioffice_logs/history_20240102T030405Z.json'',
         File (Json_actions [\<lparr>src = ''/d/a.txt'', dst = ''/d/txt/a.txt''\<rparr>]))],
     log = [(INFO, ''Move: %s -> %s'', [Str ''/d/a.txt'', Str ''/d/txt/a.txt'']),
            (INFO, ''Organization complete. History saved to %s'',
               [Str ''/d/.aioffice_logs/history_20240102T030405Z.json''])],
     stdout = []\<rparr>"

section \<open>Selecting the history file to undo\<close>

lemma last_sort_greatest:
  fixes f :: "'a :: linorder"
  assumes "f \<in> set xs" and "\<forall>g\<in>set xs. g \<le> f"
  shows "last (sort xs) = f"
proof -
  from assms(1) have ne: "sort xs \<noteq> []"
    by (metis empty_iff empty_set set_sort)
  then have "last (sort xs) \<in> set xs"
    by (metis last_in_set set_sort)
  with assms(2) have le: "last (sort xs) \<le> f"
    by blast
  from assms(1) have "f \<in> set (sort xs)"
    by simp
  then obtain i where i: "i < length (sort xs)" "sort xs ! i = f"
    by (meson in_set_conv_nth)
  have "sort xs ! i \<le> sort xs ! (length (sort xs) - 1)"
    using i(1) by (intro sorted_nth_mono) auto
  with i(2) ne have "f \<le> last (sort xs)"
    by (simp add: last_conv_nth)
  with le show ?thesis
    by simp
qed

lemma listdir_isdir: "listdir fs d = Inr names \<Longrightarrow> isdir fs d"
  by (auto simp: listdir_def isdir_def split: option.splits node.splits)

lemma undone_prefix:
  "prefix ''history_'' g \<Longrightarrow> prefix ''undone_'' (py_replace ''history_'' ''undone_'' g)"
  by (cases g) (auto simp: prefix_def)

text \<open>
  Claim C1. When the log directory holds at least one name that starts with
  \<^verbatim>\<open>history_\<close>, undo works on the greatest such name in the lexicographic order, and
  on no other: \<open>undo_last\<close> continues as \<open>undo_file\<close> on that file. The chosen name
  does not start with \<^verbatim>\<open>undone_\<close>, and it is not the undone form of any active name,
  so a history that an earlier undo renamed is never chosen again.
\<close>

theorem undo_selects_greatest_active:
  assumes "listdir (files w) (join folder LOGS_DIR) = Inr names"
    and "f \<in> set names"
    and "prefix ''history_'' f"
    and "\<forall>g\<in>set names. prefix ''history_'' g \<longrightarrow> g \<le> f"
  shows "undo_last folder w = undo_file (join (join folder LOGS_DIR) f) w
         \<and> \<not> prefix ''undone_'' f
         \<and> (\<forall>g. prefix ''history_'' g \<longrightarrow> f \<noteq> py_replace ''history_'' ''undone_'' g)"
proof -
  let ?act = "filter (prefix ''history_'') names"
  from assms(2,3) have mem: "f \<in> set ?act"
    by simp
  from assms(4) have "\<forall>g\<in>set ?act. g \<le> f"
    by simp
  with mem have last: "last (sort ?act) = f"
    by (rule last_sort_greatest)
  from mem have "sort ?act \<noteq> []"
    by (metis empty_iff empty_set set_sort)
  with last assms(1) listdir_isdir [OF assms(1)]
  have sel: "undo_last folder w = undo_file (join (join folder LOGS_DIR) f) w"
    by (simp add: undo_last_def Let_def)
  from assms(3) have nu: "\<not> prefix ''undone_'' f"
    by (auto simp: prefix_def)
  have "f \<noteq> py_replace ''history_'' ''undone_'' g" if "prefix ''history_'' g" for g
    using undone_prefix [OF that] nu by auto
  with sel nu show ?thesis
    by blast
qed

theorem undo_selects_greatest_active_witness:
  "undo_last ''/d'' w_undo = undo_file ''/d/.aioffice_logs/history_20240102T030406Z.json'' w_undo"
proof -
  let ?names = "[''organizer.log'', ''history_20240102T030405Z.json'', ''undone_20250102T030405Z.json'',
     ''history_20240102T030406Z.json'', ''history_20231231T235959Z.json'']"
  have h1: "listdir (files w_undo) (join ''/d'' LOGS_DIR) = Inr ?names"
    by code_simp
  have h2: "''history_20240102T030406Z.json'' \<in> set ?names"
    by simp
  have h3: "prefix ''history_'' ''history_20240102T030406Z.json''"
    by code_simp
  have h4: "\<forall>g\<in>set ?names. prefix ''history_'' g \<longrightarrow> g \<le> ''history_20240102T030406Z.json''"
    by code_simp
  have j: "join (join ''/d'' LOGS_DIR) ''history_20240102T030406Z.json'' = ''/d/.aioffice_logs/history_20240102T030406Z.json''"
    by code_simp
  from undo_selects_greatest_active [OF h1 h2 h3 h4] show ?thesis
    unfolding j by simp
qed

section \<open>The prefix option\<close>

text \<open>
  Claim C7. The value of \<^verbatim>\<open>--prefix\<close> has no effect: for any two values, organize
  gives the same outcome (plan, files, log records, history file), both as the function
  \<open>scan_and_organize\<close> and through the command line.
\<close>

theorem prefix_option_is_dead:
  "scan_and_organize now folder dry_run p1 w = scan_and_organize now folder dry_run p2 w
   \<and> main now (Organize folder dry_run p1) w = main now (Organize folder dry_run p2) w"
proof -
  have a: "scan_and_organize now folder dry_run p1 v = scan_and_organize now folder dry_run p2 v"
    for v
    by (simp add: scan_and_organize_def)
  have "main now (Organize folder dry_run p1) w = main now (Organize folder dry_run p2) w"
    by (simp add: main_def a [of _] split: prod.splits sum.splits)
  with a show ?thesis
    by simp
qed

section \<open>Dry run\<close>

text \<open>
  Claim C3. A dry run computes the plan of a real pass and writes no history file, but
  it is not free of file system changes: the planning loop calls \<^verbatim>\<open>os.makedirs\<close> for
  every planned file before the dry-run test. On a folder with one file \<^verbatim>\<open>a.txt\<close> and
  no \<^verbatim>\<open>txt\<close> folder, the dry run returns the plan, logs that no changes were made, and
  leaves a new directory \<^verbatim>\<open>/d/txt\<close> behind.
\<close>

theorem dry_run_creates_category_folder:
  "fst (scan_and_organize t0 ''/d'' True [] w_dry)
     = Inr (Some [\<lparr>src = ''/d/a.txt'', dst = ''/d/txt/a.txt''\<rparr>])
   \<and> \<not> exists (files w_dry) ''/d/txt''
   \<and> isdir (files (snd (scan_and_organize t0 ''/d'' True [] w_dry))) ''/d/txt''
   \<and> last (log (snd (scan_and_organize t0 ''/d'' True [] w_dry)))
       = (INFO, ''Dry run mode; no changes made.'', [])"
  by code_simp

section \<open>Which files are planned\<close>

text \<open>
  Claim C6. The test that keeps the log directory out of the plan compares path
  strings by prefix, so a regular file directly inside the folder whose name merely
  starts with \<^verbatim>\<open>.aioffice_logs\<close> is left out of the plan although it is neither the
  log directory nor inside it. Here \<^verbatim>\<open>/d/.aioffice_logs.bak\<close> is listed and is a
  regular file, and the plan holds only \<^verbatim>\<open>a.txt\<close>.
\<close>

theorem prefix_test_omits_top_level_file:
  "isfile (files w_bak) ''/d/.aioffice_logs.bak''
   \<and> listdir (files w_bak) ''/d'' = Inr [''.aioffice_logs'', ''.aioffice_logs.bak'', ''a.txt'']
   \<and> fst (scan_and_organize t0 ''/d'' True [] w_bak)
       = Inr (Some [\<lparr>src = ''/d/a.txt'', dst = ''/d/txt/a.txt''\<rparr>])"
  by code_simp

section \<open>Exceptions\<close>


section \<open>Undo with a missing destination\<close>






section \<open>Where exceptions can come from\<close>

lemma isdir_listdir: "isdir fs d \<Longrightarrow> listdir fs d = Inr (children fs d)"
  by (simp add: isdir_def listdir_def)



section \<open>Two passes within one second\<close>

lemma organize_writes_history:
  assumes "scan_and_organize now folder False pfx w = (Inr (Some plan), w1)"
  shows "read_json (files w1) (join (join folder LOGS_DIR) (history_name now)) = Inr plan"
  using assms
  by (auto simp: scan_and_organize_def Let_def write_json_def read_json_def logging_info_def
      update_conv' split: if_splits sum.splits prod.splits)

text \<open>
  Claim C9. The history file name is built from the clock without the microsecond, so
  two non-dry-run passes within the same second use the same name. After the first
  pass the file holds the first plan; after the second pass the same file holds the
  second plan, and the first plan is no longer recorded there.
\<close>

theorem same_second_overwrites_history:
  assumes "scan_and_organize t folder False p w = (Inr (Some plan1), w1)"
    and "scan_and_organize (t\<lparr>microsecond := m\<rparr>) folder False p' w1 = (Inr (Some plan2), w2)"
  shows "history_name (t\<lparr>microsecond := m\<rparr>) = history_name t
    \<and> read_json (files w1) (join (join folder LOGS_DIR) (history_name t)) = Inr plan1
    \<and> read_json (files w2) (join (join folder LOGS_DIR) (history_name t)) = Inr plan2"
proof -
  have n: "history_name (t\<lparr>microsecond := m\<rparr>) = history_name t"
    by (simp add: history_name_def strftime_def)
  from organize_writes_history [OF assms(1)] organize_writes_history [OF assms(2)] n
  show ?thesis
    by simp
qed

theorem same_second_overwrites_history_witness:
  "read_json (files w_once) ''/d/.aioffice_logs/history_20240102T030405Z.json''
     = Inr [\<lparr>src = ''/d/a.txt'', dst = ''/d/txt/a.txt''\<rparr>]
   \<and> read_json (files w_twice) ''/d/.aioffice_logs/history_20240102T030405Z.json'' = Inr []
   \<and> children (files w_twice) ''/d/.aioffice_logs'' = [''history_20240102T030405Z.json'']
   \<and> map_of (files (snd (undo_last ''/d'' w_twice))) ''/d/a.txt'' = None"
proof -
  have h1: "scan_and_organize t0 ''/d'' False [] w_dry
      = (Inr (Some [\<lparr>src = ''/d/a.txt'', dst = ''/d/txt/a.txt''\<rparr>]), w_once)"
    by code_simp
  have h2: "scan_and_organize (t0\<lparr>microsecond := 999\<rparr>) ''/d'' False [] w_once
      = (Inr (Some []), w_twice)"
    by code_simp
  have j: "join (join ''/d'' LOGS_DIR) (history_name t0)
      = ''/d/.aioffice_logs/history_20240102T030405Z.json''"
    by code_simp
  have c: "children (files w_twice) ''/d/.aioffice_logs'' = [''history_20240102T030405Z.json'']"
    by code_simp
  have u: "map_of (files (snd (undo_last ''/d'' w_twice))) ''/d/a.txt'' = None"
    by code_simp
  from same_second_overwrites_history [OF h1 h2] c u show ?thesis
    unfolding j by simp
qed

section \<open>Paths\<close>

lemma no_slash_not_abs: "CHR ''/'' \<notin> set b \<Longrightarrow> \<not> prefix ''/'' b"
  by (auto simp: prefix_def)

lemma join_plain: "CHR ''/'' \<notin> set b \<Longrightarrow> join a b = join a [] @ b"
  by (auto simp: join_def prefix_def)

lemma join_child: "a \<noteq> [] \<Longrightarrow> last a \<noteq> CHR ''/'' \<Longrightarrow> CHR ''/'' \<notin> set b \<Longrightarrow> join a b = a @ CHR ''/'' # b"
  by (auto simp: join_def prefix_def)

lemma takeWhile_until: "c \<notin> set ys \<Longrightarrow> takeWhile (\<lambda>x. x \<noteq> c) (ys @ c # zs) = ys"
  by (induction ys) auto

lemma dropWhile_until: "c \<notin> set ys \<Longrightarrow> dropWhile (\<lambda>x. x \<noteq> c) (ys @ c # zs) = c # zs"
  by (induction ys) auto

lemma slash_split_unique:
  assumes "a @ CHR ''/'' # b = c @ CHR ''/'' # d" and "CHR ''/'' \<notin> set b" and "CHR ''/'' \<notin> set d"
  shows "a = c \<and> b = d"
proof -
  have tw: "takeWhile (\<lambda>x. x \<noteq> CHR ''/'') (rev ys @ CHR ''/'' # zs) = rev ys"
    if "CHR ''/'' \<notin> set ys" for ys zs :: string
    using that by (simp add: takeWhile_until)
  have "takeWhile (\<lambda>x. x \<noteq> CHR ''/'') (rev (a @ CHR ''/'' # b)) = rev b"
    using tw [OF assms(2)] by simp
  moreover have "takeWhile (\<lambda>x. x \<noteq> CHR ''/'') (rev (c @ CHR ''/'' # d)) = rev d"
    using tw [OF assms(3)] by simp
  ultimately have "b = d"
    using assms(1) by (metis rev_is_rev_conv)
  with assms(1) show ?thesis
    by simp
qed

lemma path_split_child:
  assumes "a \<noteq> []" and "last a \<noteq> CHR ''/''" and "CHR ''/'' \<notin> set b"
  shows "path_split (a @ CHR ''/'' # b) = (a, b)"
proof -
  let ?P = "\<lambda>c. c \<noteq> CHR ''/''"
  have r: "rev (a @ CHR ''/'' # b) = rev b @ CHR ''/'' # rev a"
    by simp
  have t: "takeWhile ?P (rev b @ CHR ''/'' # rev a) = rev b"
    using assms(3) by (simp add: takeWhile_until)
  have d: "dropWhile ?P (rev b @ CHR ''/'' # rev a) = CHR ''/'' # rev a"
    using assms(3) by (simp add: dropWhile_until)
  from assms(1,2) have h: "hd (rev a) \<noteq> CHR ''/''"
    by (simp add: hd_rev)
  from assms(1) have ra: "rev a \<noteq> []"
    by simp
  from h ra have dw: "dropWhile (\<lambda>c. c = CHR ''/'') (rev a) = rev a"
    by (cases "rev a") auto
  from assms(1) have "last a \<in> set a"
    by simp
  with assms(2) have na: "\<not> list_all (\<lambda>c. c = CHR ''/'') a"
    by (auto simp: list_all_iff)
  show ?thesis
    unfolding path_split_def r t d Let_def using na dw by simp
qed

lemma path_split_root_child:
  assumes "CHR ''/'' \<notin> set b"
  shows "path_split (CHR ''/'' # b) = (''/'', b)"
proof -
  let ?P = "\<lambda>c. c \<noteq> CHR ''/''"
  have t: "takeWhile ?P (rev b @ [CHR ''/'']) = rev b"
    using assms by (simp add: takeWhile_until)
  have d: "dropWhile ?P (rev b @ [CHR ''/'']) = [CHR ''/'']"
    using assms by (simp add: dropWhile_until)
  show ?thesis
    unfolding path_split_def Let_def by (simp add: t d)
qed

lemma path_split_join:
  assumes "normalised folder" and "CHR ''/'' \<notin> set b"
  shows "path_split (join folder b) = (folder, b)"
proof (cases "folder = ''/''")
  case True
  with assms(2) show ?thesis
    using path_split_root_child [OF assms(2)] no_slash_not_abs [OF assms(2)]
    by (simp add: join_def)
next
  case False
  with assms(1) have "folder \<noteq> []" "last folder \<noteq> CHR ''/''"
    by (auto simp: normalised_def)
  then show ?thesis
    using path_split_child [of folder b] join_child [of folder b] assms(2) by simp
qed

lemma dirname_join: "normalised folder \<Longrightarrow> CHR ''/'' \<notin> set b \<Longrightarrow> dirname (join folder b) = folder"
  by (simp add: dirname_def path_split_join)

lemma normalised_join:
  assumes "b \<noteq> []" and "CHR ''/'' \<notin> set b"
  shows "normalised (join a b)"
proof -
  from assms have "last b \<noteq> CHR ''/''"
    by (metis last_in_set)
  with assms show ?thesis
    using no_slash_not_abs [OF assms(2)] by (auto simp: normalised_def join_def)
qed

lemma LOGS_DIR_plain: "LOGS_DIR \<noteq> [] \<and> CHR ''/'' \<notin> set LOGS_DIR"
  by (simp add: LOGS_DIR_def)

lemma normalised_logs: "normalised (join folder LOGS_DIR)"
  using LOGS_DIR_plain by (simp add: normalised_join)

section \<open>The characters of a history name\<close>

lemma digits_range: "c \<in> set (digits k n) \<Longrightarrow> 48 \<le> (of_char c :: nat) \<and> (of_char c :: nat) \<le> 57"
proof (induction k arbitrary: n)
  case 0
  then show ?case by simp
next
  case (Suc k)
  have "(of_char (char_of (48 + n mod 10 :: nat)) :: nat) = 48 + n mod 10"
    by simp
  moreover have "n mod 10 < 10"
    by simp
  ultimately have "48 \<le> (of_char (char_of (48 + n mod 10 :: nat)) :: nat)
      \<and> (of_char (char_of (48 + n mod 10 :: nat)) :: nat) \<le> 57"
    by linarith
  with Suc show ?case
    by auto
qed

lemma strftime_chars:
  assumes "c \<in> set (strftime t)"
  shows "c \<noteq> CHR ''/'' \<and> c \<noteq> CHR ''h''"
proof -
  from assms have "(48 \<le> (of_char c :: nat) \<and> (of_char c :: nat) \<le> 57) \<or> c = CHR ''T'' \<or> c = CHR ''Z''"
    by (auto simp: strftime_def dest: digits_range)
  then show ?thesis
    by auto
qed

lemma history_name_plain: "history_name now \<noteq> [] \<and> CHR ''/'' \<notin> set (history_name now)"
  using strftime_chars [of "CHR ''/''" now] by (auto simp: history_name_def)

section \<open>The category of a file name\<close>

lemma lower_char_low:
  assumes "(of_char (lower_char c) :: nat) < 97"
  shows "lower_char c = c"
proof (rule ccontr)
  assume n: "lower_char c \<noteq> c"
  let ?n = "of_char c :: nat"
  from n have r: "(65 \<le> ?n \<and> ?n \<le> 90) \<or> (192 \<le> ?n \<and> ?n \<le> 222 \<and> ?n \<noteq> 215)"
    by (auto simp: lower_char_def Let_def split: if_splits)
  then have l: "lower_char c = char_of (?n + 32)"
    by (simp add: lower_char_def Let_def)
  from r have "(?n + 32) mod 256 = ?n + 32"
    by auto
  with l have "(of_char (lower_char c) :: nat) = ?n + 32"
    by simp
  with r assms show False
    by linarith
qed

lemma lower_keeps_out:
  assumes "(of_char x :: nat) < 97" and "x \<notin> set s"
  shows "x \<notin> set (lower s)"
proof
  assume "x \<in> set (lower s)"
  then obtain c where c: "c \<in> set s" "lower_char c = x"
    by (auto simp: lower_def)
  from c(2) assms(1) have "(of_char (lower_char c) :: nat) < 97"
    by simp
  then have "lower_char c = c"
    by (rule lower_char_low)
  with c assms(2) show False
    by simp
qed

lemma set_strip: "set (strip c s) \<subseteq> set s"
proof -
  have "set (dropWhile (\<lambda>x. x = c) (rev (dropWhile (\<lambda>x. x = c) s)))
      \<subseteq> set (rev (dropWhile (\<lambda>x. x = c) s))"
    by (meson set_dropWhileD subsetI)
  moreover have "set (dropWhile (\<lambda>x. x = c) s) \<subseteq> set s"
    by (meson set_dropWhileD subsetI)
  ultimately show ?thesis
    by (auto simp: strip_def)
qed

lemma hd_strip:
  assumes "strip c s \<noteq> []"
  shows "hd (strip c s) \<noteq> c"
proof -
  let ?P = "\<lambda>x. x = c"
  let ?t = "dropWhile ?P s"
  let ?X = "rev (dropWhile ?P (rev ?t))"
  let ?Y = "rev (takeWhile ?P (rev ?t))"
  have "?X @ ?Y = rev (takeWhile ?P (rev ?t) @ dropWhile ?P (rev ?t))"
    by (simp only: rev_append)
  also have "\<dots> = rev (rev ?t)"
    by (simp only: takeWhile_dropWhile_id)
  finally have t: "?t = ?X @ ?Y"
    by simp
  from assms have X: "?X \<noteq> []"
    by (simp add: strip_def)
  with t have "hd ?t = hd ?X"
    by (metis hd_append2)
  moreover have "?t \<noteq> []"
  proof
    assume e: "?t = []"
    have "?X = []"
      unfolding e by simp
    with X show False
      by blast
  qed
  then have "\<not> ?P (hd ?t)"
    by (rule hd_dropWhile)
  ultimately show ?thesis
    by (simp add: strip_def)
qed

lemma set_splitext: "set (snd (splitext n)) \<subseteq> set n"
proof -
  have "set (takeWhile (\<lambda>c. c \<noteq> CHR ''.'') (rev n)) \<subseteq> set n"
    by (metis set_rev set_takeWhileD subsetI)
  then show ?thesis
    by (auto simp: splitext_def Let_def)
qed

lemma category_plain:
  assumes "CHR ''/'' \<notin> set n"
  shows "category n \<noteq> [] \<and> CHR ''/'' \<notin> set (category n)"
proof -
  from assms set_splitext have "CHR ''/'' \<notin> set (snd (splitext n))"
    by blast
  then have "CHR ''/'' \<notin> set (lower (snd (splitext n)))"
    by (intro lower_keeps_out) simp_all
  with set_strip have "CHR ''/'' \<notin> set (strip CHR ''.'' (lower (snd (splitext n))))"
    by blast
  then show ?thesis
    by (simp add: category_def Let_def)
qed

lemma category_no_dot: "hd (category n) \<noteq> CHR ''.''"
  using hd_strip [of "CHR ''.''" "lower (snd (splitext n))"]
  by (simp add: category_def Let_def)

lemma category_not_logs: "category n \<noteq> LOGS_DIR"
  using category_no_dot [of n] by (auto simp: LOGS_DIR_def)

section \<open>Directory listings\<close>

lemma children_set:
  "set (children fs d)
     = {n. n \<noteq> [] \<and> CHR ''/'' \<notin> set n \<and> join d [] @ n \<in> fst ` set fs}"
proof (intro equalityI subsetI)
  fix n assume "n \<in> set (children fs d)"
  then obtain p v where pv: "(p, v) \<in> set fs" "prefix (join d []) p"
      "drop (length (join d [])) p \<noteq> []" "CHR ''/'' \<notin> set (drop (length (join d [])) p)"
      "n = drop (length (join d [])) p"
    by (auto simp: children_def Let_def)
  from pv(2) have "join d [] @ drop (length (join d [])) p = p"
    by (auto simp: prefix_def)
  with pv show "n \<in> {n. n \<noteq> [] \<and> CHR ''/'' \<notin> set n \<and> join d [] @ n \<in> fst ` set fs}"
    by force
next
  fix n assume "n \<in> {n. n \<noteq> [] \<and> CHR ''/'' \<notin> set n \<and> join d [] @ n \<in> fst ` set fs}"
  then obtain v where v: "n \<noteq> []" "CHR ''/'' \<notin> set n" "(join d [] @ n, v) \<in> set fs"
    by auto
  have "(\<lambda>(p, n). drop (length (join d [])) p) (join d [] @ n, v) = n"
    by simp
  moreover from v have "(join d [] @ n, v) \<in> set (filter (\<lambda>(p, n). prefix (join d []) p
      \<and> drop (length (join d [])) p \<noteq> [] \<and> CHR ''/'' \<notin> set (drop (length (join d [])) p)) fs)"
    by simp
  ultimately show "n \<in> set (children fs d)"
    unfolding children_def Let_def by (metis (no_types, lifting) image_eqI set_map)
qed

lemma children_plain:
  assumes "n \<in> set (children fs d)"
  shows "n \<noteq> []" and "CHR ''/'' \<notin> set n" and "exists fs (join d n)"
proof -
  from assms show a: "n \<noteq> []" and b: "CHR ''/'' \<notin> set n"
    by (simp_all add: children_set)
  from assms have "join d [] @ n \<in> fst ` set fs"
    by (simp add: children_set)
  with b have "join d n \<in> fst ` set fs"
    by (simp add: join_plain [of n d])
  then show "exists fs (join d n)"
    by (simp add: exists_def map_of_eq_None_iff)
qed

lemma child_listed:
  assumes "exists fs (join d n)" and "n \<noteq> []" and "CHR ''/'' \<notin> set n"
  shows "n \<in> set (children fs d)"
proof -
  from assms(1) have "join d n \<in> fst ` set fs"
    by (simp add: exists_def map_of_eq_None_iff)
  with assms(3) have "join d [] @ n \<in> fst ` set fs"
    by (simp add: join_plain [of n d])
  with assms(2,3) show ?thesis
    by (simp add: children_set)
qed

lemma distinct_children:
  assumes "distinct (map fst fs)"
  shows "distinct (children fs d)"
proof -
  let ?k = "length (join d [])"
  let ?Q = "\<lambda>p. prefix (join d []) p \<and> drop ?k p \<noteq> [] \<and> CHR ''/'' \<notin> set (drop ?k p)"
  have c: "children fs d = map (drop ?k) (filter ?Q (map fst fs))"
    by (simp add: children_def Let_def filter_map comp_def case_prod_unfold)
  from assms have d: "distinct (filter ?Q (map fst fs))"
    by simp
  have "inj_on (drop ?k) (set (filter ?Q (map fst fs)))"
  proof (rule inj_onI)
    fix x y assume "x \<in> set (filter ?Q (map fst fs))" "y \<in> set (filter ?Q (map fst fs))"
      and e: "drop ?k x = drop ?k y"
    then have "prefix (join d []) x" "prefix (join d []) y"
      by auto
    then have "x = join d [] @ drop ?k x" "y = join d [] @ drop ?k y"
      by (auto simp: prefix_def)
    with e show "x = y"
      by simp
  qed
  with d show ?thesis
    unfolding c by (simp add: distinct_map)
qed

section \<open>Replacing the marker\<close>




lemma replace_count:
  assumes "c \<notin> set old" and "c \<notin> set new" and "old \<noteq> []"
  shows "count_list (py_replace old new s) c = count_list s c"
  using assms
proof (induction old new s rule: py_replace.induct)
  case (1 old new)
  then show ?case by simp
next
  case (2 old new x xs)
  show ?case
  proof (cases "prefix old (x # xs)")
    case True
    then obtain r where r: "x # xs = old @ r"
      by (auto simp: prefix_def)
    then have d: "drop (length old) (x # xs) = r"
      by simp
    from "2.prems" have z: "count_list old c = 0" "count_list new c = 0"
      by (simp_all add: count_list_0_iff)
    have "count_list (x # xs) c = count_list r c"
      unfolding r using z by simp
    with "2.IH"(2) [OF "2.prems"(3) True "2.prems"] True "2.prems"(3) d z show ?thesis
      by simp
  next
    case False
    with "2.IH"(3) [OF "2.prems"(3) False "2.prems"] "2.prems"(3) show ?thesis
      by simp
  qed
qed

section \<open>Directories\<close>

lemma isdir_exists: "isdir fs p \<Longrightarrow> exists fs p"
  by (simp add: isdir_def exists_def)

lemma isfile_conv: "isfile fs p \<longleftrightarrow> (\<exists>c. map_of fs p = Some (File c))"
  by (auto simp: isfile_def split: option.splits node.splits)

lemma makedirs_child:
  assumes "normalised folder" and "isdir fs folder" and "c \<noteq> []" and "CHR ''/'' \<notin> set c"
  shows "makedirs fs (join folder c)
    = (if map_of fs (join folder c) = None then Inr (AList.update (join folder c) Dir fs)
       else if isdir fs (join folder c) then Inr fs else Inl FileExistsError)"
proof -
  have s: "path_split (join folder c) = (folder, c)"
    using assms(1,4) by (rule path_split_join)
  have d: "dirname (join folder c) = folder"
    using assms(1,4) by (rule dirname_join)
  from assms(2) have e: "exists fs folder"
    by (rule isdir_exists)
  have 1: "makedirs fs (join folder c)
    = (case mkdir fs (join folder c) of
         Inl e \<Rightarrow> if isdir fs (join folder c) then Inr fs else Inl e
       | Inr fs2 \<Rightarrow> Inr fs2)"
    unfolding makedirs.simps [of fs "join folder c"] s using assms(3) e by simp
  have 2: "mkdir fs (join folder c)
    = (if exists fs (join folder c) then Inl FileExistsError
       else Inr (AList.update (join folder c) Dir fs))"
    using e assms(2) d by (simp add: mkdir_def)
  show ?thesis
    unfolding 1 2 by (auto simp: exists_def isdir_def)
qed

lemma path_split_root: "path_split ''/'' = (''/'', [])"
  by (simp add: path_split_def)

lemma makedirs_existing:
  assumes "normalised folder" and "isdir fs folder" and "isdir fs (dirname folder)"
  shows "makedirs fs folder = Inr fs"
proof (cases "folder = ''/''")
  case True
  from assms(2) have "exists fs folder"
    by (rule isdir_exists)
  with True assms(2) show ?thesis
    unfolding True makedirs.simps [of fs "''/''"] path_split_root
    by (simp add: mkdir_def path_split_root)
next
  case False
  with assms(1) have f: "folder \<noteq> []" "last folder \<noteq> CHR ''/''"
    by (auto simp: normalised_def)
  then have "hd (rev folder) \<noteq> CHR ''/''" "rev folder \<noteq> []"
    by (simp_all add: hd_rev)
  then have "takeWhile (\<lambda>c. c \<noteq> CHR ''/'') (rev folder) \<noteq> []"
    by (cases "rev folder") auto
  then have t: "snd (path_split folder) \<noteq> []"
    by (simp add: path_split_def Let_def)
  obtain h tl where s: "path_split folder = (h, tl)"
    by (cases "path_split folder")
  with t have tl: "tl \<noteq> []"
    by simp
  from s have h: "h = dirname folder"
    by (simp add: dirname_def)
  from assms(3) h have eh: "exists fs h"
    by (simp add: isdir_exists)
  from assms(2) have ef: "exists fs folder"
    by (rule isdir_exists)
  show ?thesis
    unfolding makedirs.simps [of fs folder] s
    using tl eh ef assms(2) by (simp add: mkdir_def)
qed

section \<open>Moving a regular file\<close>

lemma os_rename_file:
  assumes "map_of fs s = Some (File c)" and "os_rename fs s d = Inr fs'"
  shows "map_of fs' = (map_of fs)(s := None, d \<mapsto> File c)" and "\<not> isdir fs d"
proof -
  from assms show "\<not> isdir fs d"
    by (auto simp: os_rename_def split: if_splits)
  show "map_of fs' = (map_of fs)(s := None, d \<mapsto> File c)"
  proof (cases "s = d")
    case True
    with assms have "fs' = fs"
      by (auto simp: os_rename_def split: if_splits)
    with True assms(1) show ?thesis
      by (auto simp: fun_eq_iff)
  next
    case False
    with assms have "fs' = AList.update d (File c) (AList.delete s fs)"
      by (auto simp: os_rename_def split: if_splits)
    then show ?thesis
      by (simp add: update_conv' delete_conv')
  qed
qed

lemma os_rename_fresh:
  assumes "map_of fs s = Some (File c)" and "map_of fs d = None" and "isdir fs (dirname d)"
  shows "os_rename fs s d = Inr (AList.update d (File c) (AList.delete s fs))"
proof -
  from assms(1,2) have "s \<noteq> d"
    by auto
  with assms show ?thesis
    by (simp add: os_rename_def isdir_exists isdir_def)
qed

lemma move_file:
  assumes "map_of fs s = Some (File c)" and "move fs s d = Inr fs'"
  shows "\<exists>d'. map_of fs' = (map_of fs)(s := None, d' \<mapsto> File c) \<and> \<not> isdir fs d'"
proof -
  from assms(2) obtain d' where "os_rename fs s d' = Inr fs'"
    by (auto simp: move_def Let_def split: if_splits)
  from os_rename_file [OF assms(1) this] show ?thesis
    by blast
qed

lemma move_fresh:
  assumes "map_of fs s = Some (File c)" and "map_of fs d = None" and "isdir fs (dirname d)"
  shows "move fs s d = Inr (AList.update d (File c) (AList.delete s fs))"
  using assms os_rename_fresh [OF assms] by (simp add: move_def isdir_def)

lemma move_missing: "map_of fs s = None \<Longrightarrow> \<exists>e. move fs s d = Inl e"
  by (auto simp: move_def os_rename_def Let_def)

lemma move_isdir:
  assumes "\<not> isdir fs s" and "move fs s d = Inr fs'"
  shows "isdir fs' q = isdir fs q"
proof (cases "map_of fs s")
  case None
  with move_missing [of fs s d] assms(2) show ?thesis
    by auto
next
  case (Some n)
  with assms(1) obtain c where c: "map_of fs s = Some (File c)"
    by (cases n) (auto simp: isdir_def)
  from move_file [OF c assms(2)] obtain d'
    where d': "map_of fs' = (map_of fs)(s := None, d' \<mapsto> File c)" "\<not> isdir fs d'"
    by blast
  with c show ?thesis
    by (auto simp: isdir_def)
qed

section \<open>Iterating over a plan\<close>

lemma move_all_Cons: "move_all (a # as) w = move_all as (move_one a w)"
  by (simp add: move_all_def)


lemma move_one_isdir:
  assumes "\<not> isdir (files w) (src a)"
  shows "isdir (files (move_one a w)) q = isdir (files w) q"
proof (cases "move (files w) (src a) (dst a)")
  case (Inl e)
  then show ?thesis
    by (simp add: move_one_def logging_error_def)
next
  case (Inr fs1)
  with move_isdir [OF assms Inr] show ?thesis
    by (simp add: move_one_def)
qed

lemma move_all_isdir:
  assumes "\<forall>a\<in>set as. \<not> isdir (files w) (src a)"
  shows "isdir (files (move_all as w)) q = isdir (files w) q"
  using assms
proof (induction as arbitrary: w)
  case Nil
  then show ?case by (simp add: move_all_def)
next
  case (Cons a as)
  then have a: "\<not> isdir (files w) (src a)"
    by simp
  from Cons.prems have "\<forall>b\<in>set as. \<not> isdir (files (move_one a w)) (src b)"
    by (simp add: move_one_isdir [OF a])
  from Cons.IH [OF this] show ?case
    by (simp add: move_all_Cons move_one_isdir [OF a])
qed

lemma move_one_fresh:
  assumes "map_of (files w) (src a) = Some (File c)" and "map_of (files w) (dst a) = None"
    and "isdir (files w) (dirname (dst a))"
  shows "map_of (files (move_one a w)) = (map_of (files w))(src a := None, dst a \<mapsto> File c)"
    and "log (move_one a w) = log w"
  using move_fresh [OF assms]
  by (simp_all add: move_one_def update_conv' delete_conv')

lemma restore_fresh:
  assumes "map_of (files w) (dst a) = Some (File c)" and "map_of (files w) (src a) = None"
    and "normalised (dirname (src a))" and "isdir (files w) (dirname (src a))"
    and "isdir (files w) (dirname (dirname (src a)))"
  shows "map_of (files (restore a w)) = (map_of (files w))(dst a := None, src a \<mapsto> File c)"
proof -
  from assms(1) have e: "exists (files w) (dst a)"
    by (simp add: exists_def)
  have m: "makedirs (files w) (dirname (src a)) = Inr (files w)"
    using assms(3,4,5) by (rule makedirs_existing)
  have "move (files w) (dst a) (src a)
      = Inr (AList.update (src a) (File c) (AList.delete (dst a) (files w)))"
    using assms(1,2,4) by (rule move_fresh)
  with e m show ?thesis
    by (simp add: restore_def Let_def logging_info_def update_conv' delete_conv')
qed

lemma fold_moves:
  fixes step :: "action \<Rightarrow> world \<Rightarrow> world" and frm to :: "action \<Rightarrow> path"
    and need :: "action \<Rightarrow> path set" and good :: "action \<Rightarrow> bool"
  assumes step: "\<And>a w c. good a \<Longrightarrow> map_of (files w) (frm a) = Some (File c)
        \<Longrightarrow> map_of (files w) (to a) = None \<Longrightarrow> (\<forall>k\<in>need a. isdir (files w) k)
        \<Longrightarrow> map_of (files (step a w)) = (map_of (files w))(frm a := None, to a \<mapsto> File c)"
    and "distinct (map frm as)" and "distinct (map to as)"
    and "\<forall>a\<in>set as. good a \<and> isfile (files w) (frm a) \<and> map_of (files w) (to a) = None
           \<and> (\<forall>k\<in>need a. isdir (files w) k)"
  shows "(\<forall>a\<in>set as. map_of (files (fold step as w)) (to a) = map_of (files w) (frm a)
            \<and> map_of (files (fold step as w)) (frm a) = None)
       \<and> (\<forall>q. q \<notin> frm ` set as \<union> to ` set as
            \<longrightarrow> map_of (files (fold step as w)) q = map_of (files w) q)"
  using assms(2-)
proof (induction as arbitrary: w)
  case Nil
  then show ?case by simp
next
  case (Cons a as)
  let ?m = "map_of (files w)"
  let ?w = "step a w"
  let ?m' = "map_of (files ?w)"
  from Cons.prems(3) obtain c where c: "?m (frm a) = Some (File c)"
    by (auto simp: isfile_conv)
  from Cons.prems(3) have ga: "good a" "?m (to a) = None" "\<forall>k\<in>need a. isdir (files w) k"
    by simp_all
  have m': "?m' = ?m(frm a := None, to a \<mapsto> File c)"
    using ga(1) c ga(2,3) by (rule step)
  have fa: "frm a \<noteq> to a"
    using c ga(2) by auto
  have pre: "\<forall>b\<in>set as. good b \<and> isfile (files ?w) (frm b) \<and> ?m' (to b) = None
           \<and> (\<forall>k\<in>need b. isdir (files ?w) k)"
  proof
    fix b assume b: "b \<in> set as"
    with Cons.prems(3) have gb: "good b" "isfile (files w) (frm b)" "?m (to b) = None"
        "\<forall>k\<in>need b. isdir (files w) k"
      by simp_all
    from b Cons.prems(1) have n1: "frm b \<noteq> frm a"
      by (auto simp: image_iff)
    from b Cons.prems(2) have n2: "to b \<noteq> to a"
      by (auto simp: image_iff)
    from gb(2) ga(2) have n3: "frm b \<noteq> to a"
      by (auto simp: isfile_conv)
    from gb(2) n1 n3 have f: "isfile (files ?w) (frm b)"
      by (simp add: isfile_conv m')
    from gb(3) n2 have t: "?m' (to b) = None"
      by (simp add: m')
    have k: "\<forall>k\<in>need b. isdir (files ?w) k"
    proof
      fix k assume "k \<in> need b"
      with gb(4) have d: "isdir (files w) k"
        by simp
      with c ga(2) have "k \<noteq> frm a" "k \<noteq> to a"
        by (auto simp: isdir_def)
      with d show "isdir (files ?w) k"
        by (simp add: isdir_def m')
    qed
    from gb(1) f t k
    show "good b \<and> isfile (files ?w) (frm b) \<and> ?m' (to b) = None
           \<and> (\<forall>k\<in>need b. isdir (files ?w) k)"
      by simp
  qed
  from Cons.prems(1,2) have di: "distinct (map frm as)" "distinct (map to as)"
    by simp_all
  note IH = Cons.IH [OF di pre]
  have na: "to a \<notin> frm ` set as" "to a \<notin> to ` set as" "frm a \<notin> frm ` set as"
      "frm a \<notin> to ` set as"
  proof -
    show "to a \<notin> to ` set as" "frm a \<notin> frm ` set as"
      using Cons.prems(1,2) by auto
    show "to a \<notin> frm ` set as"
      using Cons.prems(3) ga(2) by (auto simp: isfile_conv)
    show "frm a \<notin> to ` set as"
      using Cons.prems(3) c by auto
  qed
  have A: "map_of (files (fold step as ?w)) (to a) = ?m (frm a)"
    using IH na(1,2) c by (simp add: m')
  have B: "map_of (files (fold step as ?w)) (frm a) = None"
    using IH na(3,4) fa by (simp add: m')
  have C: "map_of (files (fold step as ?w)) (to b) = ?m (frm b)
      \<and> map_of (files (fold step as ?w)) (frm b) = None" if "b \<in> set as" for b
  proof -
    from that Cons.prems(1) have "frm b \<noteq> frm a"
      by (auto simp: image_iff)
    moreover from that Cons.prems(3) ga(2) have "frm b \<noteq> to a"
      by (auto simp: isfile_conv)
    ultimately show ?thesis
      using IH that by (simp add: m')
  qed
  have D: "map_of (files (fold step as ?w)) q = ?m q"
    if "q \<notin> frm ` set (a # as) \<union> to ` set (a # as)" for q
    using IH that by (simp add: m')
  from A B C D show ?case
    by simp
qed

section \<open>The planning loop\<close>

lemma files_log_plan [simp]: "files (log_plan plan w) = files w"
proof -
  have "files (fold (\<lambda>act. logging_info fmt [Str (src act), Str (dst act)]) plan w) = files w"
    for fmt
    by (induction plan arbitrary: w) (simp_all add: logging_info_def)
  then show ?thesis
    by (simp add: log_plan_def)
qed

lemma plan_files_result:
  assumes "normalised folder" and "isdir fs folder"
    and "\<forall>n\<in>set names. n \<noteq> [] \<and> CHR ''/'' \<notin> set n"
    and "plan_files folder names acc fs = (Inr plan, fs1)"
  shows "plan = acc @ map (planned folder) (filter (selected fs folder) names)
    \<and> (\<forall>q. map_of fs1 q = map_of fs q
           \<or> (map_of fs q = None \<and> map_of fs1 q = Some Dir
               \<and> (\<exists>n\<in>set names. q = join folder (category n))))
    \<and> (\<forall>n\<in>set (filter (selected fs folder) names). isdir fs1 (join folder (category n)))"
  using assms(2-)
proof (induction names arbitrary: acc fs)
  case Nil
  then show ?case by simp
next
  case (Cons n rest)
  let ?t = "join folder (category n)"
  from Cons.prems(2) have n: "n \<noteq> []" "CHR ''/'' \<notin> set n"
    and rest: "\<forall>m\<in>set rest. m \<noteq> [] \<and> CHR ''/'' \<notin> set m"
    by simp_all
  show ?case
  proof (cases "selected fs folder n")
    case False
    with Cons.prems(3) have "plan_files folder rest acc fs = (Inr plan, fs1)"
      by (auto simp: selected_def Let_def)
    from Cons.IH [OF Cons.prems(1) rest this] False show ?thesis
      by auto
  next
    case True
    from category_plain [OF n(2)] have c: "category n \<noteq> []" "CHR ''/'' \<notin> set (category n)"
      by simp_all
    note mk = makedirs_child [OF assms(1) Cons.prems(1) c]
    from True Cons.prems(3) obtain fs' where fs': "makedirs fs ?t = Inr fs'"
      and run: "plan_files folder rest (acc @ [planned folder n]) fs' = (Inr plan, fs1)"
      by (auto simp: selected_def planned_def Let_def split: sum.splits)
    from fs' mk have g: "map_of fs' q = map_of fs q
        \<or> (map_of fs q = None \<and> map_of fs' q = Some Dir \<and> q = ?t)" for q
      by (auto simp: update_conv' isdir_def split: if_splits)
    from fs' mk have t: "isdir fs' ?t"
      by (auto simp: update_conv' isdir_def split: if_splits)
    from g [of folder] Cons.prems(1) have d: "isdir fs' folder"
      by (auto simp: isdir_def)
    have f: "isfile fs' q = isfile fs q" for q
    proof (cases "map_of fs q")
      case None
      with g [of q] have "map_of fs' q = None \<or> map_of fs' q = Some Dir"
        by auto
      with None show ?thesis
        by (auto simp: isfile_def)
    next
      case (Some v)
      with g [of q] have "map_of fs' q = map_of fs q"
        by auto
      then show ?thesis
        by (simp add: isfile_def)
    qed
    then have s: "selected fs' folder = selected fs folder"
      by (simp add: selected_def fun_eq_iff)
    note IH = Cons.IH [OF d rest run, unfolded s]
    note IH1 = IH [THEN conjunct1]
    note IH2 = IH [THEN conjunct2, THEN conjunct1, rule_format]
    note IH3 = IH [THEN conjunct2, THEN conjunct2]
    from IH1 True have 1: "plan = acc @ map (planned folder) (filter (selected fs folder) (n # rest))"
      by simp
    have 2: "map_of fs1 q = map_of fs q
           \<or> (map_of fs q = None \<and> map_of fs1 q = Some Dir
               \<and> (\<exists>m\<in>set (n # rest). q = join folder (category m)))" for q
    proof -
      from IH2 [of q] g [of q] show ?thesis
        by auto
    qed
    from IH2 [of ?t] t have 3: "isdir fs1 ?t"
      by (auto simp: isdir_def)
    from IH3 3 have 4: "\<forall>m\<in>set (filter (selected fs folder) (n # rest)).
        isdir fs1 (join folder (category m))"
      by auto
    from 1 2 4 show ?thesis
      by blast
  qed
qed


section \<open>Shapes of the paths of a plan\<close>

lemma src_shape: "CHR ''/'' \<notin> set n \<Longrightarrow> src (planned folder n) = join folder [] @ n"
  by (simp add: planned_def join_plain [of n folder])

lemma dst_shape:
  assumes "CHR ''/'' \<notin> set n"
  shows "dst (planned folder n) = join folder [] @ category n @ CHR ''/'' # n"
proof -
  from category_plain [OF assms] have c: "category n \<noteq> []" "CHR ''/'' \<notin> set (category n)"
    by simp_all
  then have l: "last (category n) \<noteq> CHR ''/''"
    by (metis last_in_set)
  have j: "join folder (category n) = join folder [] @ category n"
    using c(2) by (rule join_plain)
  with c(1) l have "join folder (category n) \<noteq> []" "last (join folder (category n)) \<noteq> CHR ''/''"
    by simp_all
  from join_child [OF this assms] j show ?thesis
    by (simp add: planned_def)
qed

lemma history_shape:
  "join (join folder LOGS_DIR) (history_name now)
     = join folder [] @ LOGS_DIR @ CHR ''/'' # history_name now"
proof -
  have j: "join folder LOGS_DIR = join folder [] @ LOGS_DIR"
    using LOGS_DIR_plain join_plain [of LOGS_DIR folder] by simp
  then have "join folder LOGS_DIR \<noteq> []" "last (join folder LOGS_DIR) \<noteq> CHR ''/''"
    by (simp_all add: LOGS_DIR_def)
  from join_child [OF this] history_name_plain [of now] j show ?thesis
    by simp
qed

lemma history_not_category:
  assumes "CHR ''/'' \<notin> set c"
  shows "join (join folder LOGS_DIR) (history_name now) \<noteq> join folder c"
proof
  assume "join (join folder LOGS_DIR) (history_name now) = join folder c"
  then have "LOGS_DIR @ CHR ''/'' # history_name now = c"
    by (simp add: history_shape join_plain [OF assms, of folder])
  with assms show False
    by auto
qed

lemma dirname_history:
  "dirname (join (join folder LOGS_DIR) (history_name now)) = join folder LOGS_DIR"
  using normalised_logs history_name_plain by (simp add: dirname_join)

section \<open>The history records the whole plan\<close>

lemma children_plain_all:
  "\<forall>n\<in>set (children fs d). n \<noteq> [] \<and> CHR ''/'' \<notin> set n"
  using children_plain(1,2) by blast





section \<open>Organize on a folder with no regular file, then undo\<close>


lemma undo_last_greatest:
  assumes "isdir (files w) (join folder LOGS_DIR)"
    and "f \<in> set (children (files w) (join folder LOGS_DIR))"
    and "prefix ''history_'' f"
    and "\<forall>g\<in>set (children (files w) (join folder LOGS_DIR)). prefix ''history_'' g \<longrightarrow> g \<le> f"
  shows "undo_last folder w = undo_file (join (join folder LOGS_DIR) f) w"
proof -
  let ?act = "filter (prefix ''history_'') (children (files w) (join folder LOGS_DIR))"
  from assms(2,3) have mem: "f \<in> set ?act"
    by simp
  from assms(4) have "\<forall>g\<in>set ?act. g \<le> f"
    by simp
  with mem have last: "last (sort ?act) = f"
    by (rule last_sort_greatest)
  from mem have "sort ?act \<noteq> []"
    by (metis empty_iff empty_set set_sort)
  with last assms(1) show ?thesis
    by (simp add: undo_last_def Let_def isdir_listdir)
qed










section \<open>Organize, then undo\<close>

lemma organize_run:
  assumes "scan_and_organize now folder False pfx w = (Inr (Some plan), w1)"
  shows "isdir (files w) folder
    \<and> (\<exists>fs1. plan_files folder (children (files w) folder) [] (files w) = (Inr plan, fs1)
          \<and> isdir (files (move_all plan (log_plan plan (w\<lparr>files := fs1\<rparr>))))
               (dirname (join (join folder LOGS_DIR) (history_name now)))
          \<and> \<not> isdir (files (move_all plan (log_plan plan (w\<lparr>files := fs1\<rparr>))))
               (join (join folder LOGS_DIR) (history_name now))
          \<and> files w1 = AList.update (join (join folder LOGS_DIR) (history_name now))
               (File (Json_actions plan))
               (files (move_all plan (log_plan plan (w\<lparr>files := fs1\<rparr>)))))"
proof -
  from assms have d: "isdir (files w) folder"
    by (auto simp: scan_and_organize_def split: if_splits)
  obtain r fs1 where p: "plan_files folder (children (files w) folder) [] (files w) = (r, fs1)"
    by (cases "plan_files folder (children (files w) folder) [] (files w)")
  from assms d p have r: "r = Inr plan"
    by (cases r) (auto simp: scan_and_organize_def isdir_listdir Let_def split: sum.splits)
  let ?fs2 = "files (move_all plan (log_plan plan (w\<lparr>files := fs1\<rparr>)))"
  let ?h = "join (join folder LOGS_DIR) (history_name now)"
  from assms d p r obtain fs3 where w: "write_json ?fs2 ?h plan = Inr fs3" "files w1 = fs3"
    by (auto simp: scan_and_organize_def isdir_listdir Let_def logging_info_def
        split: sum.splits)
  from w(1) have "isdir ?fs2 (dirname ?h)" "\<not> isdir ?fs2 ?h"
      "fs3 = AList.update ?h (File (Json_actions plan)) ?fs2"
    by (auto simp: write_json_def split: if_splits)
  with d p r w(2) show ?thesis
    by auto
qed

lemma mark_undone_frame:
  assumes "map_of (files w) h = Some (File c)" and "q \<noteq> h" and "q \<noteq> undone_path h"
  shows "map_of (files (snd (mark_undone h w))) q = map_of (files w) q"
proof (cases "os_replace (files w) h (undone_path h)")
  case (Inl e)
  then show ?thesis
    by (simp add: mark_undone_def Let_def)
next
  case (Inr fs1)
  then have "os_rename (files w) h (undone_path h) = Inr fs1"
    by (simp add: os_replace_def)
  from os_rename_file(1) [OF assms(1) this] assms(2,3) Inr show ?thesis
    by (simp add: mark_undone_def Let_def logging_info_def)
qed

lemma count_plain: "c \<notin> set s \<Longrightarrow> count_list s c = 0"
  by (simp add: count_list_0_iff)

lemma src_not_undone:
  assumes "CHR ''/'' \<notin> set n"
  shows "join folder n \<noteq> undone_path (join (join folder LOGS_DIR) (history_name now))"
proof
  let ?h = "join (join folder LOGS_DIR) (history_name now)"
  assume e: "join folder n = undone_path ?h"
  have "count_list (undone_path ?h) CHR ''/'' = count_list ?h CHR ''/''"
    unfolding undone_path_def by (rule replace_count) simp_all
  also have "\<dots> = count_list (join folder []) CHR ''/'' + 1"
    using history_name_plain [of now] LOGS_DIR_plain
    by (simp add: history_shape count_plain)
  finally have "count_list (join folder n) CHR ''/'' = count_list (join folder []) CHR ''/'' + 1"
    by (simp add: e)
  moreover have "count_list (join folder n) CHR ''/'' = count_list (join folder []) CHR ''/''"
    using assms by (simp add: join_plain [of n folder] count_plain)
  ultimately show False
    by simp
qed

lemma src_not_history:
  assumes "CHR ''/'' \<notin> set n"
  shows "join folder n \<noteq> join (join folder LOGS_DIR) (history_name now)"
  using history_not_category [OF assms, of folder now] by auto

lemma dst_not_history:
  assumes "CHR ''/'' \<notin> set n"
  shows "dst (planned folder n) \<noteq> join (join folder LOGS_DIR) (history_name now)"
proof
  assume "dst (planned folder n) = join (join folder LOGS_DIR) (history_name now)"
  then have "category n @ CHR ''/'' # n = LOGS_DIR @ CHR ''/'' # history_name now"
    by (simp add: dst_shape [OF assms] history_shape)
  from slash_split_unique [OF this assms] history_name_plain [of now] category_not_logs [of n]
  show False
    by simp
qed

lemma dst_not_category:
  assumes "CHR ''/'' \<notin> set n" and "CHR ''/'' \<notin> set c"
  shows "dst (planned folder n) \<noteq> join folder c"
proof
  assume "dst (planned folder n) = join folder c"
  then have "category n @ CHR ''/'' # n = c"
    by (simp add: dst_shape [OF assms(1)] join_plain [OF assms(2), of folder])
  with assms(2) show False
    by auto
qed

lemma dirname_dst:
  assumes "CHR ''/'' \<notin> set n"
  shows "dirname (dst (planned folder n)) = join folder (category n)"
proof -
  from category_plain [OF assms] have "normalised (join folder (category n))"
    by (simp add: normalised_join)
  from dirname_join [OF this assms] show ?thesis
    by (simp add: planned_def)
qed

lemma dirname_src:
  assumes "normalised folder" and "CHR ''/'' \<notin> set n"
  shows "dirname (src (planned folder n)) = folder"
  using dirname_join [OF assms] by (simp add: planned_def)

lemma distinct_planned:
  assumes "distinct ns" and "\<forall>n\<in>set ns. CHR ''/'' \<notin> set n"
  shows "distinct (map src (map (planned folder) ns))"
    and "distinct (map dst (map (planned folder) ns))"
proof -
  have "inj_on (\<lambda>n. src (planned folder n)) (set ns)"
  proof (rule inj_onI)
    fix x y assume "x \<in> set ns" "y \<in> set ns" "src (planned folder x) = src (planned folder y)"
    with assms(2) show "x = y"
      by (simp add: src_shape)
  qed
  with assms(1) show "distinct (map src (map (planned folder) ns))"
    by (simp add: distinct_map comp_def)
  have "inj_on (\<lambda>n. dst (planned folder n)) (set ns)"
  proof (rule inj_onI)
    fix x y assume x: "x \<in> set ns" and y: "y \<in> set ns"
      and e: "dst (planned folder x) = dst (planned folder y)"
    from x y assms(2) have p: "CHR ''/'' \<notin> set x" "CHR ''/'' \<notin> set y"
      by simp_all
    from e have "category x @ CHR ''/'' # x = category y @ CHR ''/'' # y"
      by (simp add: dst_shape p)
    from slash_split_unique [OF this p] show "x = y"
      by simp
  qed
  with assms(1) show "distinct (map dst (map (planned folder) ns))"
    by (simp add: distinct_map comp_def)
qed

text \<open>
  Claim C2, as stated, fails. No move fails in either of these runs. When the
  destination of a planned move is already a regular file, \<^verbatim>\<open>shutil.move\<close> replaces
  it, and after undo the file that was there is gone. When the destination is a
  directory, \<^verbatim>\<open>shutil.move\<close> puts the file inside it, and undo then moves the whole
  directory to the original path of the file.
\<close>

theorem organize_then_undo_counterexample:
  "scan_and_organize t0 ''/d'' False [] w_collide
     = (Inr (Some [\<lparr>src = ''/d/a.txt'', dst = ''/d/txt/a.txt''\<rparr>]), w_collide_organized)
   \<and> map_of (files w_collide) ''/d/txt/a.txt'' = Some (File (Bytes ''OLD''))
   \<and> map_of (files (snd (undo_last ''/d'' w_collide_organized))) ''/d/txt/a.txt'' = None
   \<and> scan_and_organize t0 ''/d'' False [] w_into_dir
     = (Inr (Some [\<lparr>src = ''/d/a.txt'', dst = ''/d/txt/a.txt''\<rparr>]), w_into_dir_organized)
   \<and> map_of (files w_into_dir) ''/d/a.txt'' = Some (File (Bytes ''A''))
   \<and> map_of (files (snd (undo_last ''/d'' w_into_dir_organized))) ''/d/a.txt'' = Some Dir"
proof -
  have 1: "scan_and_organize t0 ''/d'' False [] w_collide
     = (Inr (Some [\<lparr>src = ''/d/a.txt'', dst = ''/d/txt/a.txt''\<rparr>]), w_collide_organized)"
    by code_simp
  have 2: "map_of (files w_collide) ''/d/txt/a.txt'' = Some (File (Bytes ''OLD''))"
    by code_simp
  have 3: "map_of (files (snd (undo_last ''/d'' w_collide_organized))) ''/d/txt/a.txt'' = None"
    by code_simp
  have 4: "scan_and_organize t0 ''/d'' False [] w_into_dir
     = (Inr (Some [\<lparr>src = ''/d/a.txt'', dst = ''/d/txt/a.txt''\<rparr>]), w_into_dir_organized)"
    by code_simp
  have 5: "map_of (files w_into_dir) ''/d/a.txt'' = Some (File (Bytes ''A''))"
    by code_simp
  have 6: "map_of (files (snd (undo_last ''/d'' w_into_dir_organized))) ''/d/a.txt'' = Some Dir"
    by code_simp
  from 1 2 3 4 5 6 show ?thesis
    by (intro conjI)
qed

text \<open>
  Claim C2, amended. Let a non-dry-run pass succeed on a folder whose parent
  directory exists, in a file system that lists every path once, with no planned
  destination present beforehand, and let its history name be the greatest active one
  afterwards. Then the plan is the list of
  the selected top-level names, every planned source is a regular file before the pass
  and has the same content at the same path after the undo, and every other path,
  apart from the history file and its undone form, is as before, or is a directory
  that was created.
\<close>

theorem organize_then_undo_restores:
  assumes "normalised folder" and "isdir (files w) (dirname folder)"
    and "distinct (map fst (files w))"
    and "scan_and_organize now folder False pfx w = (Inr (Some plan), w1)"
    and "\<forall>a\<in>set plan. \<not> exists (files w) (dst a)"
    and "\<forall>g\<in>set (children (files w1) (join folder LOGS_DIR)).
           prefix ''history_'' g \<longrightarrow> g \<le> history_name now"
  shows "plan = map (planned folder) (filter (selected (files w) folder) (children (files w) folder))
    \<and> (\<forall>a\<in>set plan. isfile (files w) (src a)
          \<and> map_of (files (snd (undo_last folder w1))) (src a) = map_of (files w) (src a))
    \<and> (\<forall>q. q \<noteq> join (join folder LOGS_DIR) (history_name now)
          \<and> q \<noteq> undone_path (join (join folder LOGS_DIR) (history_name now))
        \<longrightarrow> map_of (files (snd (undo_last folder w1))) q = map_of (files w) q
            \<or> (map_of (files w) q = None
                \<and> map_of (files (snd (undo_last folder w1))) q = Some Dir))"
proof -
  let ?fs = "files w"
  let ?logs = "join folder LOGS_DIR"
  let ?h = "join ?logs (history_name now)"
  let ?u = "undone_path ?h"
  let ?names = "children ?fs folder"
  let ?sel = "filter (selected ?fs folder) ?names"
  from organize_run [OF assms(4)] obtain fs1
    where d: "isdir ?fs folder"
      and p: "plan_files folder ?names [] ?fs = (Inr plan, fs1)"
      and wl: "isdir (files (move_all plan (log_plan plan (w\<lparr>files := fs1\<rparr>)))) (dirname ?h)"
      and wh: "\<not> isdir (files (move_all plan (log_plan plan (w\<lparr>files := fs1\<rparr>)))) ?h"
      and f3: "files w1 = AList.update ?h (File (Json_actions plan))
                 (files (move_all plan (log_plan plan (w\<lparr>files := fs1\<rparr>))))"
    by blast
  let ?wp = "log_plan plan (w\<lparr>files := fs1\<rparr>)"
  let ?fs2 = "files (move_all plan ?wp)"
  let ?w4 = "restore_all plan w1"
  have fp: "files ?wp = fs1"
    by simp
  note R = plan_files_result [OF assms(1) d children_plain_all p]
  from R have plan: "plan = map (planned folder) ?sel"
    by simp
  note grown = R [THEN conjunct2, THEN conjunct1, rule_format]
  note catdir = R [THEN conjunct2, THEN conjunct2, rule_format]
  have plain: "CHR ''/'' \<notin> set n" if "n \<in> set ?sel" for n
    using that children_plain(2) [of n ?fs folder] by simp
  have dn: "distinct ?sel"
    using distinct_children [OF assms(3)] by simp
  have ds: "distinct (map src plan)" and dd: "distinct (map dst plan)"
    unfolding plan using distinct_planned [OF dn] plain by simp_all
  have m3: "map_of (files w1) = (map_of ?fs2)(?h \<mapsto> File (Json_actions plan))"
    by (simp add: f3 update_conv')

  have pre1: "isfile fs1 (src a) \<and> map_of fs1 (dst a) = None \<and> isdir fs1 (dirname (dst a))
      \<and> isfile ?fs (src a) \<and> map_of fs1 (src a) = map_of ?fs (src a)
      \<and> src a \<noteq> ?h \<and> dst a \<noteq> ?h \<and> src a \<noteq> ?u
      \<and> normalised (dirname (src a)) \<and> dirname (src a) = folder"
    if a: "a \<in> set plan" for a
  proof -
    from a plan obtain n where n: "n \<in> set ?sel" "a = planned folder n"
      by auto
    note pn = plain [OF n(1)]
    from n have sf: "isfile ?fs (src a)"
      by (simp add: selected_def planned_def)
    from grown [of "src a"] sf have se: "map_of fs1 (src a) = map_of ?fs (src a)"
      by (auto simp: isfile_conv)
    with sf have s1: "isfile fs1 (src a)"
      by (simp add: isfile_conv)
    from a assms(5) have "map_of ?fs (dst a) = None"
      by (simp add: exists_def)
    moreover have "dst a \<noteq> join folder (category m)" if "m \<in> set ?names" for m
    proof -
      from that have "CHR ''/'' \<notin> set m"
        by (rule children_plain)
      then have "CHR ''/'' \<notin> set (category m)"
        by (simp add: category_plain)
      from dst_not_category [OF pn this] n(2) show ?thesis
        by simp
    qed
    ultimately have d1: "map_of fs1 (dst a) = None"
      using grown [of "dst a"] by auto
    from catdir [OF n(1)] n(2) have k1: "isdir fs1 (dirname (dst a))"
      by (simp add: dirname_dst [OF pn])
    have h1: "src a \<noteq> ?h"
      using src_not_history [OF pn, of folder now] n(2) by (simp add: planned_def)
    have h2: "dst a \<noteq> ?h"
      using dst_not_history [OF pn, of folder now] n(2) by simp
    have h3: "src a \<noteq> ?u"
      using src_not_undone [OF pn, of folder now] n(2) by (simp add: planned_def)
    have h4: "dirname (src a) = folder"
      using dirname_src [OF assms(1) pn] n(2) by simp
    from s1 d1 k1 sf se h1 h2 h3 h4 assms(1) show ?thesis
      by simp
  qed

  have fwd: "(\<forall>a\<in>set plan. map_of ?fs2 (dst a) = map_of fs1 (src a)
                \<and> map_of ?fs2 (src a) = None)
       \<and> (\<forall>q. q \<notin> src ` set plan \<union> dst ` set plan \<longrightarrow> map_of ?fs2 q = map_of fs1 q)"
  proof -
    have "(\<forall>a\<in>set plan. map_of (files (fold move_one plan ?wp)) (dst a)
                  = map_of (files ?wp) (src a)
                \<and> map_of (files (fold move_one plan ?wp)) (src a) = None)
       \<and> (\<forall>q. q \<notin> src ` set plan \<union> dst ` set plan
            \<longrightarrow> map_of (files (fold move_one plan ?wp)) q = map_of (files ?wp) q)"
    proof (rule fold_moves [where need = "\<lambda>a. {dirname (dst a)}" and good = "\<lambda>a. True"])
      show "map_of (files (move_one a v)) = (map_of (files v))(src a := None, dst a \<mapsto> File c)"
        if "map_of (files v) (src a) = Some (File c)" "map_of (files v) (dst a) = None"
          "\<forall>k\<in>{dirname (dst a)}. isdir (files v) k" for a v c
        using that by (intro move_one_fresh(1)) simp_all
      show "distinct (map src plan)" "distinct (map dst plan)"
        by (rule ds, rule dd)
      show "\<forall>a\<in>set plan. True \<and> isfile (files ?wp) (src a) \<and> map_of (files ?wp) (dst a) = None
          \<and> (\<forall>k\<in>{dirname (dst a)}. isdir (files ?wp) k)"
        using pre1 by (simp add: fp)
    qed
    then show ?thesis
      by (simp add: move_all_def fp)
  qed
  note fwd1 = fwd [THEN conjunct1, rule_format]
  note fwd2 = fwd [THEN conjunct2, rule_format]

  have nd: "\<forall>a\<in>set plan. \<not> isdir (files ?wp) (src a)"
  proof
    fix a assume "a \<in> set plan"
    from pre1 [OF this] show "\<not> isdir (files ?wp) (src a)"
      by (auto simp: fp isfile_conv isdir_def)
  qed
  have keep2: "isdir ?fs2 q = isdir fs1 q" for q
    using move_all_isdir [OF nd] by (simp add: fp)
  have keep1: "isdir fs1 q" if "isdir ?fs q" for q
    using grown [of q] that by (auto simp: isdir_def)
  have keep3: "isdir (files w1) q" if "isdir ?fs q" for q
  proof -
    from that have "isdir ?fs2 q"
      by (simp add: keep2 keep1)
    with wh have "q \<noteq> ?h"
      by auto
    with \<open>isdir ?fs2 q\<close> show ?thesis
      by (simp add: isdir_def m3)
  qed

  have pre3: "normalised (dirname (src a)) \<and> isfile (files w1) (dst a)
      \<and> map_of (files w1) (src a) = None
      \<and> (\<forall>k\<in>{dirname (src a), dirname (dirname (src a))}. isdir (files w1) k)"
    if a: "a \<in> set plan" for a
  proof -
    note P = pre1 [OF a]
    from P fwd1 [OF a] have "isfile (files w1) (dst a)"
      by (simp add: m3 isfile_conv)
    moreover from P fwd1 [OF a] have "map_of (files w1) (src a) = None"
      by (simp add: m3)
    moreover from P d assms(2) have "isdir (files w1) (dirname (src a))"
        "isdir (files w1) (dirname (dirname (src a)))"
      by (simp_all add: keep3)
    ultimately show ?thesis
      using P assms(1) by simp
  qed

  have bwd: "(\<forall>a\<in>set plan. map_of (files ?w4) (src a) = map_of (files w1) (dst a)
                \<and> map_of (files ?w4) (dst a) = None)
       \<and> (\<forall>q. q \<notin> dst ` set plan \<union> src ` set plan
            \<longrightarrow> map_of (files ?w4) q = map_of (files w1) q)"
    unfolding restore_all_def
  proof (rule fold_moves [where need = "\<lambda>a. {dirname (src a), dirname (dirname (src a))}"
        and good = "\<lambda>a. normalised (dirname (src a))"])
    show "map_of (files (restore a v)) = (map_of (files v))(dst a := None, src a \<mapsto> File c)"
      if "normalised (dirname (src a))" "map_of (files v) (dst a) = Some (File c)"
        "map_of (files v) (src a) = None"
        "\<forall>k\<in>{dirname (src a), dirname (dirname (src a))}. isdir (files v) k" for a v c
      using that by (intro restore_fresh) simp_all
    show "distinct (map dst plan)" "distinct (map src plan)"
      by (rule dd, rule ds)
    show "\<forall>a\<in>set plan. normalised (dirname (src a)) \<and> isfile (files w1) (dst a)
        \<and> map_of (files w1) (src a) = None
        \<and> (\<forall>k\<in>{dirname (src a), dirname (dirname (src a))}. isdir (files w1) k)"
      using pre3 by blast
  qed
  note bwd1 = bwd [THEN conjunct1, rule_format]
  note bwd2 = bwd [THEN conjunct2, rule_format]

  have hn: "?h \<notin> src ` set plan \<union> dst ` set plan"
  proof
    assume "?h \<in> src ` set plan \<union> dst ` set plan"
    then obtain a where a: "a \<in> set plan" "?h = src a \<or> ?h = dst a"
      by auto
    from pre1 [OF a(1)] a(2) show False
      by auto
  qed
  have l3: "isdir (files w1) ?logs"
  proof -
    from wl have "isdir ?fs2 ?logs"
      by (simp add: dirname_history)
    with wh have "?logs \<noteq> ?h"
      by auto
    with \<open>isdir ?fs2 ?logs\<close> show ?thesis
      by (simp add: isdir_def m3)
  qed
  have "exists (files w1) ?h"
    by (simp add: exists_def m3)
  then have in3: "history_name now \<in> set (children (files w1) ?logs)"
    using history_name_plain [of now] by (intro child_listed) simp_all
  have ph: "prefix ''history_'' (history_name now)"
    by (simp add: history_name_def)
  have sel: "undo_last folder w1 = undo_file ?h w1"
    using l3 in3 ph assms(6) by (rule undo_last_greatest)
  have rd: "read_json (files w1) ?h = Inr plan"
    by (simp add: read_json_def m3)
  from sel rd have un: "undo_last folder w1 = mark_undone ?h ?w4"
    by (simp add: undo_file_def)
  have h4: "map_of (files ?w4) ?h = Some (File (Json_actions plan))"
    using bwd2 [of ?h] hn by (simp add: m3)
  have fin: "map_of (files (snd (undo_last folder w1))) q = map_of (files ?w4) q"
    if "q \<noteq> ?h" "q \<noteq> ?u" for q
    unfolding un using h4 that by (rule mark_undone_frame)

  have A: "isfile ?fs (src a)
      \<and> map_of (files (snd (undo_last folder w1))) (src a) = map_of ?fs (src a)"
    if a: "a \<in> set plan" for a
  proof -
    note P = pre1 [OF a]
    from P have "map_of (files (snd (undo_last folder w1))) (src a) = map_of (files ?w4) (src a)"
      by (intro fin) simp_all
    also have "\<dots> = map_of (files w1) (dst a)"
      using bwd1 [OF a] by simp
    also have "\<dots> = map_of ?fs2 (dst a)"
      using P by (simp add: m3)
    also have "\<dots> = map_of ?fs (src a)"
      using fwd1 [OF a] P by simp
    finally show ?thesis
      using P by simp
  qed
  have B: "map_of (files (snd (undo_last folder w1))) q = map_of ?fs q
      \<or> (map_of ?fs q = None \<and> map_of (files (snd (undo_last folder w1))) q = Some Dir)"
    if q: "q \<noteq> ?h" "q \<noteq> ?u" for q
  proof -
    consider a where "a \<in> set plan" "q = src a" | a where "a \<in> set plan" "q = dst a"
      | "q \<notin> src ` set plan \<union> dst ` set plan"
      by auto
    then show ?thesis
    proof cases
      case 1
      with A [of a] show ?thesis
        by simp
    next
      case 2
      from 2(1) assms(5) have "map_of ?fs (dst a) = None"
        by (simp add: exists_def)
      moreover have "map_of (files (snd (undo_last folder w1))) (dst a) = None"
        using fin [OF q] bwd1 [OF 2(1)] 2(2) by simp
      ultimately show ?thesis
        using 2(2) by simp
    next
      case 3
      then have "map_of (files ?w4) q = map_of (files w1) q"
        by (intro bwd2) auto
      also have "\<dots> = map_of ?fs2 q"
        using q(1) by (simp add: m3)
      also have "\<dots> = map_of fs1 q"
        using 3 by (rule fwd2)
      finally have "map_of (files (snd (undo_last folder w1))) q = map_of fs1 q"
        using fin [OF q] by simp
      with grown [of q] show ?thesis
        by auto
    qed
  qed
  from plan A B show ?thesis
    by blast
qed

theorem organize_then_undo_restores_witness:
  "map_of (files (snd (undo_last ''/d'' w_spec_organized))) ''/d/a.txt'' = Some (File (Bytes ''A''))
   \<and> map_of (files (snd (undo_last ''/d'' w_spec_organized))) ''/d/b.TXT'' = Some (File (Bytes ''B''))
   \<and> map_of (files (snd (undo_last ''/d'' w_spec_organized))) ''/d/c'' = Some (File (Bytes ''C''))
   \<and> map_of (files (snd (undo_last ''/d'' w_spec_organized))) ''/d/txt/a.txt'' = None"
proof -
  let ?plan = "[\<lparr>src = ''/d/a.txt'', dst = ''/d/txt/a.txt''\<rparr>,
                \<lparr>src = ''/d/b.TXT'', dst = ''/d/txt/b.TXT''\<rparr>,
                \<lparr>src = ''/d/c'', dst = ''/d/no_ext/c''\<rparr>]"
  have h1: "normalised ''/d''"
    by (simp add: normalised_def)
  have h2: "isdir (files w_spec) (dirname ''/d'')"
    by code_simp
  have h3: "distinct (map fst (files w_spec))"
    by code_simp
  have h4: "scan_and_organize t0 ''/d'' False [] w_spec = (Inr (Some ?plan), w_spec_organized)"
    by code_simp
  have h5: "\<forall>a\<in>set ?plan. \<not> exists (files w_spec) (dst a)"
    by code_simp
  have h6: "\<forall>g\<in>set (children (files w_spec_organized) (join ''/d'' LOGS_DIR)).
           prefix ''history_'' g \<longrightarrow> g \<le> history_name t0"
    by code_simp
  note T = organize_then_undo_restores [OF h1 h2 h3 h4 h5 h6]
  note S = T [THEN conjunct2, THEN conjunct1, rule_format]
  note Q = T [THEN conjunct2, THEN conjunct2, rule_format]
  have a: "map_of (files w_spec) ''/d/a.txt'' = Some (File (Bytes ''A''))"
    and b: "map_of (files w_spec) ''/d/b.TXT'' = Some (File (Bytes ''B''))"
    and c: "map_of (files w_spec) ''/d/c'' = Some (File (Bytes ''C''))"
    and d: "map_of (files w_spec) ''/d/txt/a.txt'' = None"
    by code_simp+
  have n: "''/d/txt/a.txt'' \<noteq> join (join ''/d'' LOGS_DIR) (history_name t0)
      \<and> ''/d/txt/a.txt'' \<noteq> undone_path (join (join ''/d'' LOGS_DIR) (history_name t0))"
    by code_simp
  from S [of "\<lparr>src = ''/d/a.txt'', dst = ''/d/txt/a.txt''\<rparr>"] a
  have 1: "map_of (files (snd (undo_last ''/d'' w_spec_organized))) ''/d/a.txt''
      = Some (File (Bytes ''A''))"
    by simp
  from S [of "\<lparr>src = ''/d/b.TXT'', dst = ''/d/txt/b.TXT''\<rparr>"] b
  have 2: "map_of (files (snd (undo_last ''/d'' w_spec_organized))) ''/d/b.TXT''
      = Some (File (Bytes ''B''))"
    by simp
  from S [of "\<lparr>src = ''/d/c'', dst = ''/d/no_ext/c''\<rparr>"] c
  have 3: "map_of (files (snd (undo_last ''/d'' w_spec_organized))) ''/d/c''
      = Some (File (Bytes ''C''))"
    by simp
  from Q [of "''/d/txt/a.txt''"] n d
  have 4: "map_of (files (snd (undo_last ''/d'' w_spec_organized))) ''/d/txt/a.txt'' = None
      \<or> map_of (files (snd (undo_last ''/d'' w_spec_organized))) ''/d/txt/a.txt'' = Some Dir"
    by simp
  have 5: "map_of (files (snd (undo_last ''/d'' w_spec_organized))) ''/d/txt/a.txt'' \<noteq> Some Dir"
    by code_simp
  from 1 2 3 4 5 show ?thesis
    by blast
qed

end
